theory Spec2Isabelle
  imports Complex_Main "HOL-Library.Word"
begin

section \<open>Stamp placement engine of stampwise: \<open>PDFProcessor.find_whitest_space\<close>\<close>

text \<open>
  The development embeds the search part of \<open>find_whitest_space\<close> (src/server.py): the
  primary multi-scale scan, the local refinement, the four corner fallbacks and the forced
  placement. The detectors that run before the search are OpenCV calls (threshold,
  morphology, contours); their result, the array \<open>forbidden_mask\<close>, is a parameter of
  the model, of the same shape as the page. The whiteness map is a plain threshold of the
  page and is modelled. The shorter copy of the function in the command-line package
  (processor.py) is embedded in the same way.

  Conventions.
  \<^item> Python integers are \<open>int\<close>; the page shape \<open>(height, width)\<close> is a pair of \<open>nat\<close>.
  \<^item> A \<open>uint8\<close> array of shape \<open>(height, width)\<close> is a function from row and column to
    \<open>8 word\<close>; it is only ever read through slices, which clip to the shape.
  \<^item> \<open>np.sum\<close> of a \<open>uint8\<close> array accumulates in 64 bits; the sum is a \<open>nat\<close>.
  \<^item> Ratios (\<open>np.mean(roi) / 255.0\<close>, \<open>np.sum(roi) / (s * s)\<close>) are exact rationals;
    the value \<open>nan\<close> that NumPy gives for an empty region or a zero divisor is \<open>None\<close>,
    and every comparison with it is false, as in IEEE arithmetic. Rounding of binary
    floating point is not modelled.
  \<^item> The returned dictionary \<open>{"x", "y", "size", "stamp_size"}\<close> holds \<open>float\<close> conversions
    of integers; the record \<open>placement\<close> holds the integers.
  \<^item> Logging calls and variables that only feed log messages are left out.
\<close>

subsection \<open>Data\<close>

type_synonym mask = "nat \<Rightarrow> nat \<Rightarrow> 8 word"

record config =
  stamp_size_max :: int
  stamp_size_min :: int

record placement =
  p_x :: int
  p_y :: int
  p_size :: int
  p_stamp_size :: int

datatype error = IndexError

datatype tier = PRIMARY | T1 | T2 | T3a | T3b | T4

text \<open>\<open>min_margin = 5\<close> is a local constant of the function (line 356).\<close>

definition min_margin :: int where
  "min_margin = 5"

subsection \<open>Python and NumPy primitives\<close>

text \<open>\<open>range(start, stop, step)\<close>; the source never passes \<open>step = 0\<close>.\<close>

definition py_range :: "int \<Rightarrow> int \<Rightarrow> int \<Rightarrow> int list" where
  "py_range start stop step =
     (if 0 < step then
        map (\<lambda>k. start + int k * step) [0 ..< nat ((stop - start + step - 1) div step)]
      else if step < 0 then
        map (\<lambda>k. start + int k * step) [0 ..< nat ((start - stop - step - 1) div (- step))]
      else [])"

text \<open>The indices selected by \<open>a[lo:hi]\<close> on an axis of length \<open>n\<close>: negative bounds
  count from the end, and both bounds are clipped.\<close>

definition slice_bound :: "nat \<Rightarrow> int \<Rightarrow> nat" where
  "slice_bound n i = (if i < 0 then nat (max 0 (i + int n)) else nat (min i (int n)))"

definition py_slice :: "nat \<Rightarrow> int \<Rightarrow> int \<Rightarrow> nat list" where
  "py_slice n lo hi = [slice_bound n lo ..< slice_bound n hi]"

text \<open>\<open>m[y:y + s, x:x + s]\<close>, flattened row by row.\<close>

definition roi :: "nat \<Rightarrow> nat \<Rightarrow> mask \<Rightarrow> int \<Rightarrow> int \<Rightarrow> int \<Rightarrow> 8 word list" where
  "roi H W m y x s =
     concat (map (\<lambda>r. map (\<lambda>c. m r c) (py_slice W x (x + s))) (py_slice H y (y + s)))"

definition np_sum :: "8 word list \<Rightarrow> nat" where
  "np_sum ps = sum_list (map unat ps)"

text \<open>\<open>np.mean(roi) / 255.0\<close>; \<open>None\<close> is \<open>nan\<close> (empty region).\<close>

definition white_ratio_of :: "8 word list \<Rightarrow> rat option" where
  "white_ratio_of ps =
     (if ps = [] then None
      else Some (of_nat (np_sum ps) / of_nat (length ps) / 255))"

text \<open>\<open>np.sum(roi) / (square_size * square_size)\<close>; a zero divisor gives \<open>nan\<close>
  (the region is then empty and the sum is 0).\<close>

definition forbidden_ratio_of :: "8 word list \<Rightarrow> int \<Rightarrow> rat option" where
  "forbidden_ratio_of ps s =
     (if s * s = 0 then None
      else Some (of_nat (np_sum ps) / of_int (s * s)))"

text \<open>\<open>cv2.threshold(image, 245, 255, cv2.THRESH_BINARY)\<close> (line 359).\<close>

definition white_binary_of :: "mask \<Rightarrow> mask" where
  "white_binary_of img = (\<lambda>r c. if 245 < img r c then 255 else 0)"

subsection \<open>Search sizes\<close>

definition min_zone_size :: "config \<Rightarrow> int" where
  "min_zone_size cfg = stamp_size_min cfg + 2 * min_margin"

definition max_zone_size :: "config \<Rightarrow> int" where
  "max_zone_size cfg = max (stamp_size_max cfg + 2 * min_margin) 410"

text \<open>Lines 371-372 and 515-516: \<open>sizes[-1]\<close> raises \<open>IndexError\<close> on an empty list.\<close>

definition append_min :: "int list \<Rightarrow> int \<Rightarrow> error + int list" where
  "append_min sizes m =
     (if sizes = [] then Inl IndexError
      else if last sizes \<noteq> m then Inr (sizes @ [m])
      else Inr sizes)"

definition search_sizes_to_try :: "config \<Rightarrow> error + int list" where
  "search_sizes_to_try cfg =
     append_min (py_range (max_zone_size cfg) (min_zone_size cfg - 1) (- 5)) (min_zone_size cfg)"

definition fallback_sizes :: "config \<Rightarrow> error + int list" where
  "fallback_sizes cfg =
     append_min (py_range (stamp_size_max cfg + 2 * min_margin) (min_zone_size cfg - 1) (- 50))
       (min_zone_size cfg)"

definition available_stamp_size :: "config \<Rightarrow> int \<Rightarrow> int" where
  "available_stamp_size cfg square_size =
     min (square_size - 2 * min_margin) (stamp_size_max cfg)"

subsection \<open>Primary scan (lines 378-446)\<close>

definition is_large :: "config \<Rightarrow> int \<Rightarrow> bool" where
  "is_large cfg square_size \<longleftrightarrow> stamp_size_max cfg + 2 * min_margin - 20 \<le> square_size"

definition scan_step :: "config \<Rightarrow> int \<Rightarrow> int" where
  "scan_step cfg square_size =
     (if is_large cfg square_size then max 5 (square_size div 30)
      else max 10 (square_size div 20))"

definition white_threshold :: "config \<Rightarrow> int \<Rightarrow> rat" where
  "white_threshold cfg square_size = (if is_large cfg square_size then 95 / 100 else 98 / 100)"

text \<open>\<open>best_position = (x, y, white_ratio, available_stamp_size, square_size)\<close>, paired
  with \<open>best_stamp_size\<close>.\<close>

type_synonym best_position = "int \<times> int \<times> rat \<times> int \<times> int"
type_synonym scan_state = "best_position option \<times> int"

text \<open>The body of the innermost loop (lines 407-434) at one position.\<close>

definition scan_visit ::
  "config \<Rightarrow> nat \<Rightarrow> nat \<Rightarrow> mask \<Rightarrow> mask \<Rightarrow> int \<Rightarrow> int \<Rightarrow> int \<Rightarrow> scan_state \<Rightarrow> scan_state" where
  "scan_visit cfg H W forbidden_mask white_binary square_size y x st =
     (if np_sum (roi H W forbidden_mask y x square_size) = 0 then
        (case white_ratio_of (roi H W white_binary y x square_size) of
           None \<Rightarrow> st
         | Some white_ratio \<Rightarrow>
             if white_threshold cfg square_size < white_ratio then
               (let available = available_stamp_size cfg square_size in
                if stamp_size_min cfg \<le> available then
                  if stamp_size_max cfg \<le> available then
                    (Some (x, y, white_ratio, available, square_size), available)
                  else if snd st < available then
                    (Some (x, y, white_ratio, available, square_size), available)
                  else st
                else st)
             else st)
      else st)"

text \<open>The loop over \<open>x\<close>: it is left as soon as \<open>best_stamp_size >= stamp_size_max\<close> holds
  after a position (lines 428 and 437; the first \<open>break\<close> implies the test of the second).\<close>

fun scan_x ::
  "config \<Rightarrow> nat \<Rightarrow> nat \<Rightarrow> mask \<Rightarrow> mask \<Rightarrow> int \<Rightarrow> int \<Rightarrow> int list \<Rightarrow> scan_state \<Rightarrow> scan_state" where
  "scan_x cfg H W fm wb s y [] st = st"
| "scan_x cfg H W fm wb s y (x # xs) st =
     (let st' = scan_visit cfg H W fm wb s y x st in
      if stamp_size_max cfg \<le> snd st' then st' else scan_x cfg H W fm wb s y xs st')"

fun scan_y ::
  "config \<Rightarrow> nat \<Rightarrow> nat \<Rightarrow> mask \<Rightarrow> mask \<Rightarrow> int \<Rightarrow> int list \<Rightarrow> int list \<Rightarrow> scan_state \<Rightarrow> scan_state" where
  "scan_y cfg H W fm wb s xs [] st = st"
| "scan_y cfg H W fm wb s xs (y # ys) st =
     (let st' = scan_x cfg H W fm wb s y xs st in
      if stamp_size_max cfg \<le> snd st' then st' else scan_y cfg H W fm wb s xs ys st')"

fun scan_sizes ::
  "config \<Rightarrow> nat \<Rightarrow> nat \<Rightarrow> mask \<Rightarrow> mask \<Rightarrow> int list \<Rightarrow> scan_state \<Rightarrow> scan_state" where
  "scan_sizes cfg H W fm wb [] st = st"
| "scan_sizes cfg H W fm wb (square_size # sizes) st =
     (if stamp_size_max cfg \<le> snd st then st
      else
        (let search_width = int W - square_size;
             search_height = int H - square_size
         in if search_width \<le> 0 \<or> search_height \<le> 0 then scan_sizes cfg H W fm wb sizes st
            else
              (let step = scan_step cfg square_size;
                   st' = scan_y cfg H W fm wb square_size (py_range 0 search_width step)
                           (py_range 0 search_height step) st
               in if stamp_size_max cfg \<le> snd st' then st'
                  else scan_sizes cfg H W fm wb sizes st')))"

definition primary_scan ::
  "config \<Rightarrow> nat \<Rightarrow> nat \<Rightarrow> mask \<Rightarrow> mask \<Rightarrow> int list \<Rightarrow> best_position option" where
  "primary_scan cfg H W fm wb sizes = fst (scan_sizes cfg H W fm wb sizes (None, 0))"

subsection \<open>Local refinement (lines 449-490)\<close>

type_synonym refine_state = "best_position option \<times> int"

definition refine_visit ::
  "config \<Rightarrow> nat \<Rightarrow> nat \<Rightarrow> mask \<Rightarrow> mask \<Rightarrow> int \<Rightarrow> int \<Rightarrow> int \<Rightarrow> refine_state \<Rightarrow> refine_state" where
  "refine_visit cfg H W forbidden_mask white_binary found_square_size y x st =
     (if np_sum (roi H W forbidden_mask y x found_square_size) = 0 then
        (case white_ratio_of (roi H W white_binary y x found_square_size) of
           None \<Rightarrow> st
         | Some white_ratio \<Rightarrow>
             if 98 / 100 < white_ratio then
               (let available = available_stamp_size cfg found_square_size in
                if stamp_size_min cfg \<le> available then
                  if snd st < available then
                    (Some (x, y, white_ratio, available, found_square_size), available)
                  else st
                else st)
             else st)
      else st)"

definition refine_scan ::
  "config \<Rightarrow> nat \<Rightarrow> nat \<Rightarrow> mask \<Rightarrow> mask \<Rightarrow> best_position \<Rightarrow> refine_state" where
  "refine_scan cfg H W fm wb bp =
     (case bp of (best_x, best_y, best_white, found_stamp_size, found_square_size) \<Rightarrow>
        (let refine_radius = 5;
             search_width = int W - found_square_size;
             search_height = int H - found_square_size
         in if 0 < search_width \<and> 0 < search_height then
              fold (\<lambda>y. fold (refine_visit cfg H W fm wb found_square_size y)
                          (py_range (max 0 (best_x - refine_radius))
                             (min search_width (best_x + refine_radius + 1)) 2))
                (py_range (max 0 (best_y - refine_radius))
                   (min search_height (best_y + refine_radius + 1)) 2)
                (None, found_stamp_size)
            else (None, found_stamp_size)))"

definition placement_of :: "best_position \<Rightarrow> placement" where
  "placement_of bp =
     (case bp of (best_x, best_y, best_white, found_stamp_size, found_square_size) \<Rightarrow>
        \<lparr>p_x = best_x, p_y = best_y, p_size = found_square_size,
         p_stamp_size = found_stamp_size\<rparr>)"

text \<open>Lines 478-490: the refined position replaces the scanned one only when its stamp
  is strictly larger.\<close>

definition refine :: "config \<Rightarrow> nat \<Rightarrow> nat \<Rightarrow> mask \<Rightarrow> mask \<Rightarrow> best_position \<Rightarrow> placement" where
  "refine cfg H W fm wb bp =
     (case bp of (best_x, best_y, best_white, found_stamp_size, found_square_size) \<Rightarrow>
        (case refine_scan cfg H W fm wb bp of
           (Some best_refined, best_refined_stamp_size) \<Rightarrow>
             if found_stamp_size < best_refined_stamp_size then placement_of best_refined
             else placement_of bp
         | (None, best_refined_stamp_size) \<Rightarrow> placement_of bp))"

subsection \<open>Corner fallbacks (lines 495-756)\<close>

definition in_page :: "nat \<Rightarrow> nat \<Rightarrow> int \<Rightarrow> int \<Rightarrow> int \<Rightarrow> bool" where
  "in_page H W x y square_size \<longleftrightarrow>
     0 \<le> x \<and> 0 \<le> y \<and> x + square_size \<le> int W \<and> y + square_size \<le> int H"

definition corner_positions_base :: "nat \<Rightarrow> nat \<Rightarrow> (int \<times> int) list" where
  "corner_positions_base H W =
     [(int W - 20, 20), (20, 20), (int W - 20, int H - 20), (20, int H - 20),
      (int W - 50, 50), (50, 50), (int W div 2, 20)]"

definition fallback_positions_base :: "nat \<Rightarrow> nat \<Rightarrow> (int \<times> int) list" where
  "fallback_positions_base H W =
     [(int W - 50, 50), (50, 50), (int W - 50, int H - 50), (50, int H - 50),
      (int W div 2, 50), (int W div 2, int H - 50)]"

definition emergency_positions_base :: "nat \<Rightarrow> nat \<Rightarrow> (int \<times> int) list" where
  "emergency_positions_base H W =
     [(int W - 20, int H - 20), (20, int H - 20), (int W - 20, 20), (20, 20)]"

text \<open>State of a corner search: the best dictionary, its stamp size and its whiteness.\<close>

type_synonym corner_state = "placement option \<times> int \<times> rat"

text \<open>First fallback, one corner (lines 523-567). The flag is the \<open>break\<close> of line 556.\<close>

definition corner_visit ::
  "config \<Rightarrow> nat \<Rightarrow> nat \<Rightarrow> mask \<Rightarrow> mask \<Rightarrow> int \<Rightarrow> int \<times> int \<Rightarrow> corner_state
     \<Rightarrow> corner_state \<times> bool" where
  "corner_visit cfg H W forbidden_mask white_binary square_size base st =
     (let corner_x = fst base - square_size; corner_y = snd base in
      if in_page H W corner_x corner_y square_size then
        (case (forbidden_ratio_of (roi H W forbidden_mask corner_y corner_x square_size) square_size,
               white_ratio_of (roi H W white_binary corner_y corner_x square_size)) of
           (Some forbidden_ratio, Some white_ratio) \<Rightarrow>
             if forbidden_ratio = 0 \<and> 95 / 100 < white_ratio then
               (let available = available_stamp_size cfg square_size;
                    found = \<lparr>p_x = corner_x, p_y = corner_y, p_size = square_size,
                             p_stamp_size = available\<rparr>
                in if stamp_size_min cfg \<le> available then
                     if stamp_size_max cfg \<le> available then
                       ((Some found, available, white_ratio), True)
                     else if fst (snd st) < available
                             \<or> (available = fst (snd st) \<and> snd (snd st) < white_ratio) then
                       ((Some found, available, white_ratio), False)
                     else (st, False)
                   else (st, False))
             else (st, False)
         | _ \<Rightarrow> (st, False))
      else (st, False))"

fun corner_loop ::
  "config \<Rightarrow> nat \<Rightarrow> nat \<Rightarrow> mask \<Rightarrow> mask \<Rightarrow> int \<Rightarrow> (int \<times> int) list \<Rightarrow> corner_state
     \<Rightarrow> corner_state" where
  "corner_loop cfg H W fm wb s [] st = st"
| "corner_loop cfg H W fm wb s (base # bases) st =
     (case corner_visit cfg H W fm wb s base st of
        (st', True) \<Rightarrow> st'
      | (st', False) \<Rightarrow> corner_loop cfg H W fm wb s bases st')"

fun corner_sizes ::
  "config \<Rightarrow> nat \<Rightarrow> nat \<Rightarrow> mask \<Rightarrow> mask \<Rightarrow> int list \<Rightarrow> corner_state \<Rightarrow> corner_state" where
  "corner_sizes cfg H W fm wb [] st = st"
| "corner_sizes cfg H W fm wb (square_size # sizes) st =
     (if fst st \<noteq> None \<and> stamp_size_max cfg \<le> fst (snd st) then st
      else
        (let st' = corner_loop cfg H W fm wb square_size (corner_positions_base H W) st in
         if fst st' \<noteq> None \<and> stamp_size_max cfg \<le> fst (snd st') then st'
         else corner_sizes cfg H W fm wb sizes st'))"

definition corner_fallback ::
  "config \<Rightarrow> nat \<Rightarrow> nat \<Rightarrow> mask \<Rightarrow> mask \<Rightarrow> int list \<Rightarrow> placement option" where
  "corner_fallback cfg H W fm wb sizes = fst (corner_sizes cfg H W fm wb sizes (None, 0, 0))"

text \<open>Second fallback, one position (lines 599-629).\<close>

definition secours_visit ::
  "config \<Rightarrow> nat \<Rightarrow> nat \<Rightarrow> mask \<Rightarrow> mask \<Rightarrow> int \<Rightarrow> int \<times> int \<Rightarrow> corner_state \<Rightarrow> corner_state" where
  "secours_visit cfg H W forbidden_mask white_binary square_size base st =
     (let x = fst base - square_size; y = snd base in
      if in_page H W x y square_size then
        if np_sum (roi H W forbidden_mask y x square_size) = 0 then
          (case white_ratio_of (roi H W white_binary y x square_size) of
             None \<Rightarrow> st
           | Some white_ratio \<Rightarrow>
               if 95 / 100 < white_ratio then
                 (let available = available_stamp_size cfg square_size in
                  if stamp_size_min cfg \<le> available then
                    if fst (snd st) < available
                       \<or> (available = fst (snd st) \<and> snd (snd st) < white_ratio) then
                      (Some \<lparr>p_x = x, p_y = y, p_size = square_size, p_stamp_size = available\<rparr>,
                       available, white_ratio)
                    else st
                  else st)
               else st)
        else st
      else st)"

fun secours_sizes ::
  "config \<Rightarrow> nat \<Rightarrow> nat \<Rightarrow> mask \<Rightarrow> mask \<Rightarrow> int list \<Rightarrow> corner_state \<Rightarrow> corner_state" where
  "secours_sizes cfg H W fm wb [] st = st"
| "secours_sizes cfg H W fm wb (square_size # sizes) st =
     (if fst st \<noteq> None \<and> stamp_size_min cfg \<le> fst (snd st) then st
      else secours_sizes cfg H W fm wb sizes
             (fold (secours_visit cfg H W fm wb square_size) (fallback_positions_base H W) st))"

definition secours_fallback ::
  "config \<Rightarrow> nat \<Rightarrow> nat \<Rightarrow> mask \<Rightarrow> mask \<Rightarrow> int list \<Rightarrow> placement option" where
  "secours_fallback cfg H W fm wb sizes = fst (secours_sizes cfg H W fm wb sizes (None, 0, 0))"

text \<open>Emergency corners: the best dictionary, its stamp size, its whiteness and its
  overlap.\<close>

type_synonym emergency_state = "placement option \<times> int \<times> rat \<times> rat"

text \<open>Third fallback without overlap, one corner (lines 659-688).\<close>

definition emergency_visit ::
  "config \<Rightarrow> nat \<Rightarrow> nat \<Rightarrow> mask \<Rightarrow> mask \<Rightarrow> int \<Rightarrow> int \<times> int \<Rightarrow> emergency_state
     \<Rightarrow> emergency_state" where
  "emergency_visit cfg H W forbidden_mask white_binary square_size base st =
     (case st of (best_emergency, best_emergency_stamp_size, best_emergency_white_ratio,
                  best_emergency_overlap) \<Rightarrow>
        (let emergency_x = fst base - square_size; emergency_y = snd base in
         if in_page H W emergency_x emergency_y square_size then
           (case forbidden_ratio_of (roi H W forbidden_mask emergency_y emergency_x square_size)
                   square_size of
              None \<Rightarrow> st
            | Some forbidden_ratio \<Rightarrow>
                if forbidden_ratio = 0 then
                  (case white_ratio_of (roi H W white_binary emergency_y emergency_x square_size) of
                     None \<Rightarrow> st
                   | Some white_ratio \<Rightarrow>
                       if 95 / 100 < white_ratio then
                         (let available = available_stamp_size cfg square_size in
                          if stamp_size_min cfg \<le> available then
                            if best_emergency_stamp_size < available
                               \<or> (available = best_emergency_stamp_size
                                   \<and> best_emergency_white_ratio < white_ratio) then
                              (Some \<lparr>p_x = emergency_x, p_y = emergency_y, p_size = square_size,
                                     p_stamp_size = available\<rparr>,
                               available, white_ratio, 0)
                            else st
                          else st)
                       else st)
                else st)
         else st))"

definition emergency_strict ::
  "config \<Rightarrow> nat \<Rightarrow> nat \<Rightarrow> mask \<Rightarrow> mask \<Rightarrow> int list \<Rightarrow> placement option" where
  "emergency_strict cfg H W fm wb sizes =
     (case fold (\<lambda>square_size. fold (emergency_visit cfg H W fm wb square_size)
                                  (emergency_positions_base H W))
             sizes (None, 0, 0, 1) of
        (best_emergency, best_emergency_stamp_size, best_emergency_white_ratio,
         best_emergency_overlap) \<Rightarrow>
          if best_emergency \<noteq> None \<and> best_emergency_overlap = 0 then best_emergency else None)"

text \<open>Third fallback with at most 10 percent of overlap, one corner (lines 708-751).\<close>

definition overlap_visit ::
  "config \<Rightarrow> nat \<Rightarrow> nat \<Rightarrow> mask \<Rightarrow> mask \<Rightarrow> int \<Rightarrow> int \<times> int \<Rightarrow> emergency_state
     \<Rightarrow> emergency_state" where
  "overlap_visit cfg H W forbidden_mask white_binary square_size base st =
     (case st of (best_emergency, best_emergency_stamp_size, best_emergency_white_ratio,
                  best_emergency_overlap) \<Rightarrow>
        (let emergency_x = fst base - square_size; emergency_y = snd base in
         if in_page H W emergency_x emergency_y square_size then
           (case forbidden_ratio_of (roi H W forbidden_mask emergency_y emergency_x square_size)
                   square_size of
              None \<Rightarrow> st
            | Some forbidden_ratio \<Rightarrow>
                if forbidden_ratio \<le> 10 / 100 then
                  (case white_ratio_of (roi H W white_binary emergency_y emergency_x square_size) of
                     None \<Rightarrow> st
                   | Some white_ratio \<Rightarrow>
                       if 90 / 100 < white_ratio then
                         (let available = available_stamp_size cfg square_size in
                          if stamp_size_min cfg \<le> available then
                            (let is_better =
                                   (if best_emergency_stamp_size < available then True
                                    else if available = best_emergency_stamp_size then
                                      (if forbidden_ratio < best_emergency_overlap then True
                                       else forbidden_ratio = best_emergency_overlap
                                            \<and> best_emergency_white_ratio < white_ratio)
                                    else False)
                             in if is_better then
                                  (Some \<lparr>p_x = emergency_x, p_y = emergency_y,
                                         p_size = square_size, p_stamp_size = available\<rparr>,
                                   available, white_ratio, forbidden_ratio)
                                else st)
                          else st)
                       else st)
                else st)
         else st))"

definition emergency_overlap ::
  "config \<Rightarrow> nat \<Rightarrow> nat \<Rightarrow> mask \<Rightarrow> mask \<Rightarrow> int list \<Rightarrow> placement option" where
  "emergency_overlap cfg H W fm wb sizes =
     fst (fold (\<lambda>square_size. fold (overlap_visit cfg H W fm wb square_size)
                                 (emergency_positions_base H W))
            sizes (None, 0, 0, 1))"

subsection \<open>Forced placement (lines 758-788)\<close>

definition forced_position :: "config \<Rightarrow> nat \<Rightarrow> nat \<Rightarrow> placement" where
  "forced_position cfg H W =
     (let forced_square_size = stamp_size_min cfg + 2 * min_margin;
          forced_x = max 0 (int W - forced_square_size - 20);
          forced_y = 20;
          forced_x = (if int W < forced_x + forced_square_size
                      then max 0 (int W - forced_square_size) else forced_x);
          forced_y = (if int H < forced_y + forced_square_size
                      then max 0 (int H - forced_square_size) else forced_y)
      in \<lparr>p_x = forced_x, p_y = forced_y, p_size = forced_square_size,
          p_stamp_size = stamp_size_min cfg\<rparr>)"

subsection \<open>The placement operation\<close>

text \<open>The tiers after a failed primary scan (lines 492-788), with the \<open>return\<close>
  statement that produced the result: line 575 (\<open>T1\<close>), 633 (\<open>T2\<close>), 692 (\<open>T3a\<close>),
  756 (\<open>T3b\<close>) or 788 (\<open>T4\<close>).\<close>

definition fallback_tiers ::
  "config \<Rightarrow> nat \<Rightarrow> nat \<Rightarrow> mask \<Rightarrow> mask \<Rightarrow> int list \<Rightarrow> error + tier \<times> placement" where
  "fallback_tiers cfg H W forbidden_mask white_binary sizes =
     (case fallback_sizes cfg of
        Inl e \<Rightarrow> Inl e
      | Inr fsizes \<Rightarrow>
          (case corner_fallback cfg H W forbidden_mask white_binary fsizes of
             Some best_corner \<Rightarrow> Inr (T1, best_corner)
           | None \<Rightarrow>
          (case secours_fallback cfg H W forbidden_mask white_binary fsizes of
             Some best_fallback \<Rightarrow> Inr (T2, best_fallback)
           | None \<Rightarrow>
          (case emergency_strict cfg H W forbidden_mask white_binary sizes of
             Some best_emergency \<Rightarrow> Inr (T3a, best_emergency)
           | None \<Rightarrow>
          (case emergency_overlap cfg H W forbidden_mask white_binary sizes of
             Some best_emergency \<Rightarrow> Inr (T3b, best_emergency)
           | None \<Rightarrow> Inr (T4, forced_position cfg H W))))))"

text \<open>The search of \<open>find_whitest_space\<close> from line 352 on; a result of the primary scan
  is returned at line 485 (\<open>PRIMARY\<close>) after the refinement.\<close>

definition find_whitest_space_tier ::
  "config \<Rightarrow> nat \<Rightarrow> nat \<Rightarrow> mask \<Rightarrow> mask \<Rightarrow> error + tier \<times> placement" where
  "find_whitest_space_tier cfg H W forbidden_mask img =
     (let white_binary = white_binary_of img in
      case search_sizes_to_try cfg of
        Inl e \<Rightarrow> Inl e
      | Inr sizes \<Rightarrow>
          (case primary_scan cfg H W forbidden_mask white_binary sizes of
             Some best_position \<Rightarrow>
               Inr (PRIMARY, refine cfg H W forbidden_mask white_binary best_position)
           | None \<Rightarrow> fallback_tiers cfg H W forbidden_mask white_binary sizes))"

definition find_whitest_space ::
  "config \<Rightarrow> nat \<Rightarrow> nat \<Rightarrow> mask \<Rightarrow> mask \<Rightarrow> error + placement" where
  "find_whitest_space cfg H W forbidden_mask img =
     map_sum id snd (find_whitest_space_tier cfg H W forbidden_mask img)"

text \<open>The same engine with the refinement stage (lines 452-483) taken out: the position
  found by the primary scan is returned as it is.\<close>

definition find_whitest_space_unrefined ::
  "config \<Rightarrow> nat \<Rightarrow> nat \<Rightarrow> mask \<Rightarrow> mask \<Rightarrow> error + placement" where
  "find_whitest_space_unrefined cfg H W forbidden_mask img =
     (let white_binary = white_binary_of img in
      case search_sizes_to_try cfg of
        Inl e \<Rightarrow> Inl e
      | Inr sizes \<Rightarrow>
          (case primary_scan cfg H W forbidden_mask white_binary sizes of
             Some best_position \<Rightarrow> Inr (placement_of best_position)
           | None \<Rightarrow> map_sum id snd (fallback_tiers cfg H W forbidden_mask white_binary sizes)))"

subsection \<open>The command-line copy (src/packages/client-node/python/processor.py)\<close>

text \<open>
  The package \<open>client-node\<close> carries a shorter copy of \<open>find_whitest_space\<close>
  (processor.py, lines 55-176): the same primary scan with a uniform whiteness threshold
  of 0.95 and an immediate \<open>return\<close> at the first maximal position, no refinement, one
  corner fallback and a last resort. Its detectors are OpenCV calls as well, and their
  result \<open>forbidden_mask\<close> is again a parameter. The copy has no indexing of the size
  list, so it cannot raise; it returns the dictionary itself.
\<close>

text \<open>\<open>search_sizes = list(range(max_zone_size, min_zone_size - 1, -5))\<close> (line 120).\<close>

definition cli_search_sizes :: "config \<Rightarrow> int list" where
  "cli_search_sizes cfg = py_range (max_zone_size cfg) (min_zone_size cfg - 1) (- 5)"

text \<open>Line 135.\<close>

definition cli_scan_step :: "config \<Rightarrow> int \<Rightarrow> int" where
  "cli_scan_step cfg square_size =
     (if stamp_size_max cfg \<le> square_size then max 5 (square_size div 30)
      else max 10 (square_size div 20))"

text \<open>\<open>best_position = (x, y, square_size, available_stamp_size)\<close>, paired with
  \<open>best_stamp_size\<close>.\<close>

type_synonym cli_state = "(int \<times> int \<times> int \<times> int) option \<times> int"

text \<open>The body of the innermost loop (lines 139-152); \<open>Inl\<close> is the \<open>return\<close> of
  line 149.\<close>

definition cli_scan_visit ::
  "config \<Rightarrow> nat \<Rightarrow> nat \<Rightarrow> mask \<Rightarrow> mask \<Rightarrow> int \<Rightarrow> int \<Rightarrow> int \<Rightarrow> cli_state
     \<Rightarrow> placement + cli_state" where
  "cli_scan_visit cfg H W forbidden_mask white_binary square_size y x st =
     (if np_sum (roi H W forbidden_mask y x square_size) = 0 then
        (case white_ratio_of (roi H W white_binary y x square_size) of
           None \<Rightarrow> Inr st
         | Some white_ratio \<Rightarrow>
             if 95 / 100 < white_ratio then
               (let available = available_stamp_size cfg square_size in
                if stamp_size_min cfg \<le> available then
                  if stamp_size_max cfg \<le> available then
                    Inl \<lparr>p_x = x, p_y = y, p_size = square_size, p_stamp_size = available\<rparr>
                  else if snd st < available then
                    Inr (Some (x, y, square_size, available), available)
                  else Inr st
                else Inr st)
             else Inr st)
      else Inr st)"

text \<open>The loops over \<open>x\<close>, \<open>y\<close> and the sizes with their \<open>break\<close> tests (lines 154, 156
  and 126).\<close>

fun cli_scan_x ::
  "config \<Rightarrow> nat \<Rightarrow> nat \<Rightarrow> mask \<Rightarrow> mask \<Rightarrow> int \<Rightarrow> int \<Rightarrow> int list \<Rightarrow> cli_state
     \<Rightarrow> placement + cli_state" where
  "cli_scan_x cfg H W fm wb s y [] st = Inr st"
| "cli_scan_x cfg H W fm wb s y (x # xs) st =
     (case cli_scan_visit cfg H W fm wb s y x st of
        Inl found \<Rightarrow> Inl found
      | Inr st' \<Rightarrow>
          if stamp_size_max cfg \<le> snd st' then Inr st'
          else cli_scan_x cfg H W fm wb s y xs st')"

fun cli_scan_y ::
  "config \<Rightarrow> nat \<Rightarrow> nat \<Rightarrow> mask \<Rightarrow> mask \<Rightarrow> int \<Rightarrow> int list \<Rightarrow> int list \<Rightarrow> cli_state
     \<Rightarrow> placement + cli_state" where
  "cli_scan_y cfg H W fm wb s xs [] st = Inr st"
| "cli_scan_y cfg H W fm wb s xs (y # ys) st =
     (case cli_scan_x cfg H W fm wb s y xs st of
        Inl found \<Rightarrow> Inl found
      | Inr st' \<Rightarrow>
          if stamp_size_max cfg \<le> snd st' then Inr st'
          else cli_scan_y cfg H W fm wb s xs ys st')"

fun cli_scan_sizes ::
  "config \<Rightarrow> nat \<Rightarrow> nat \<Rightarrow> mask \<Rightarrow> mask \<Rightarrow> int list \<Rightarrow> cli_state
     \<Rightarrow> placement + cli_state" where
  "cli_scan_sizes cfg H W fm wb [] st = Inr st"
| "cli_scan_sizes cfg H W fm wb (square_size # sizes) st =
     (if stamp_size_max cfg \<le> snd st then Inr st
      else
        (let search_width = int W - square_size;
             search_height = int H - square_size
         in if search_width \<le> 0 \<or> search_height \<le> 0
            then cli_scan_sizes cfg H W fm wb sizes st
            else
              (let step = cli_scan_step cfg square_size in
               case cli_scan_y cfg H W fm wb square_size (py_range 0 search_width step)
                      (py_range 0 search_height step) st of
                 Inl found \<Rightarrow> Inl found
               | Inr st' \<Rightarrow> cli_scan_sizes cfg H W fm wb sizes st')))"

text \<open>The corner fallback (lines 164-173) and the last resort (line 176), which returns
  the first corner without the test of line 172.\<close>

definition cli_corners :: "config \<Rightarrow> nat \<Rightarrow> nat \<Rightarrow> (int \<times> int) list" where
  "cli_corners cfg H W =
     [(int W - stamp_size_min cfg - 40, 20),
      (20, 20),
      (int W - stamp_size_min cfg - 40, int H - stamp_size_min cfg - 40),
      (20, int H - stamp_size_min cfg - 40)]"

definition cli_corner_fallback :: "config \<Rightarrow> nat \<Rightarrow> nat \<Rightarrow> placement" where
  "cli_corner_fallback cfg H W =
     (case find (\<lambda>(cx, cy). 0 \<le> cx \<and> cx < int W - stamp_size_min cfg
                             \<and> 0 \<le> cy \<and> cy < int H - stamp_size_min cfg)
             (cli_corners cfg H W) of
        Some (cx, cy) \<Rightarrow>
          \<lparr>p_x = cx, p_y = cy, p_size = stamp_size_min cfg + 20,
           p_stamp_size = stamp_size_min cfg\<rparr>
      | None \<Rightarrow>
          \<lparr>p_x = int W - stamp_size_min cfg - 40, p_y = 20,
           p_size = stamp_size_min cfg + 20, p_stamp_size = stamp_size_min cfg\<rparr>)"

text \<open>Lines 122-176.\<close>

definition cli_find_whitest_space :: "config \<Rightarrow> nat \<Rightarrow> nat \<Rightarrow> mask \<Rightarrow> mask \<Rightarrow> placement" where
  "cli_find_whitest_space cfg H W forbidden_mask img =
     (let white_binary = white_binary_of img in
      case cli_scan_sizes cfg H W forbidden_mask white_binary (cli_search_sizes cfg) (None, 0) of
        Inl found \<Rightarrow> found
      | Inr (Some (x, y, sq_size, st_size), best_stamp_size) \<Rightarrow>
          \<lparr>p_x = x, p_y = y, p_size = sq_size, p_stamp_size = st_size\<rparr>
      | Inr (None, best_stamp_size) \<Rightarrow> cli_corner_fallback cfg H W)"

text \<open>The caller \<open>_process_single_page\<close> pastes the stamp only under the test
  \<open>coords and coords.get("x", -1) >= 0\<close> (line 188); the dictionary is never empty.\<close>

definition cli_page_is_stamped :: "placement \<Rightarrow> bool" where
  "cli_page_is_stamped coords \<longleftrightarrow> 0 \<le> p_x coords"

subsection \<open>Predicates used in the statements\<close>

definition valid_placement :: "config \<Rightarrow> nat \<Rightarrow> nat \<Rightarrow> placement \<Rightarrow> bool" where
  "valid_placement cfg H W p \<longleftrightarrow>
     0 \<le> p_x p \<and> 0 \<le> p_y p \<and> p_x p + p_size p \<le> int W \<and> p_y p + p_size p \<le> int H
     \<and> stamp_size_min cfg \<le> p_stamp_size p \<and> p_stamp_size p \<le> stamp_size_max cfg"

definition scan_ok :: "config \<Rightarrow> nat \<Rightarrow> nat \<Rightarrow> best_position \<Rightarrow> bool" where
  "scan_ok cfg H W bp \<longleftrightarrow>
     valid_placement cfg H W (placement_of bp)
     \<and> fst (snd (snd (snd bp))) = available_stamp_size cfg (snd (snd (snd (snd bp))))"

definition whiter_than :: "nat \<Rightarrow> nat \<Rightarrow> mask \<Rightarrow> int \<Rightarrow> int \<Rightarrow> int \<Rightarrow> rat \<Rightarrow> bool" where
  "whiter_than H W wb x y s t =
     (case white_ratio_of (roi H W wb y x s) of None \<Rightarrow> False | Some r \<Rightarrow> t < r)"

text \<open>The two tests of lines 410 and 417 on a candidate square.\<close>

definition clean :: "config \<Rightarrow> nat \<Rightarrow> nat \<Rightarrow> mask \<Rightarrow> mask \<Rightarrow> int \<Rightarrow> int \<Rightarrow> int \<Rightarrow> bool" where
  "clean cfg H W forbidden_mask white_binary square_size y x \<longleftrightarrow>
     np_sum (roi H W forbidden_mask y x square_size) = 0
     \<and> whiter_than H W white_binary x y square_size (white_threshold cfg square_size)"

text \<open>The positions of the primary scan in the order of the three nested loops:
  sizes in list order, then \<open>y\<close> ascending, then \<open>x\<close> ascending, both with the adaptive step;
  sizes that do not leave room in the page are skipped (line 390).\<close>

definition scan_positions :: "config \<Rightarrow> nat \<Rightarrow> nat \<Rightarrow> int list \<Rightarrow> (int \<times> int \<times> int) list" where
  "scan_positions cfg H W sizes =
     [(s, y, x). s \<leftarrow> sizes, 0 < int W - s \<and> 0 < int H - s,
                 y \<leftarrow> py_range 0 (int H - s) (scan_step cfg s),
                 x \<leftarrow> py_range 0 (int W - s) (scan_step cfg s)]"

text \<open>The scan as one loop over a list of positions, left at the first position after
  which \<open>best_stamp_size >= stamp_size_max\<close>; a device for the proofs.\<close>

fun scan_flat ::
  "config \<Rightarrow> nat \<Rightarrow> nat \<Rightarrow> mask \<Rightarrow> mask \<Rightarrow> (int \<times> int \<times> int) list \<Rightarrow> scan_state \<Rightarrow> scan_state" where
  "scan_flat cfg H W fm wb [] st = st"
| "scan_flat cfg H W fm wb ((s, y, x) # cs) st =
     (let st' = scan_visit cfg H W fm wb s y x st in
      if stamp_size_max cfg \<le> snd st' then st' else scan_flat cfg H W fm wb cs st')"

section \<open>Properties\<close>

subsection \<open>Auxiliary facts\<close>

lemma div_mult_le_int: "0 < (b::int) \<Longrightarrow> a div b * b \<le> a"
  using pos_mod_sign[of b a] div_mult_mod_eq[of a b] by linarith

lemma one_le_div: "0 < (step::int) \<Longrightarrow> 0 < n \<Longrightarrow> 1 \<le> (n + step - 1) div step"
  using int_one_le_iff_zero_less nonneg1_imp_zdiv_pos_iff by simp

lemma py_range_up_bounds:
  assumes "0 < step" "x \<in> set (py_range 0 n step)"
  shows "0 \<le> x \<and> x < n"
proof -
  from assms obtain k where k: "k < nat ((n + step - 1) div step)" and x: "x = int k * step"
    by (auto simp: py_range_def)
  have "0 \<le> x" using x assms(1) by simp
  moreover have "x < n"
  proof -
    from k have "int k + 1 \<le> (n + step - 1) div step" by linarith
    then have "(int k + 1) * step \<le> ((n + step - 1) div step) * step"
      using assms(1) by (simp add: mult_right_mono)
    also have "\<dots> \<le> n + step - 1"
      using assms(1) by (rule div_mult_le_int)
    finally show ?thesis using x by (simp add: algebra_simps)
  qed
  ultimately show ?thesis by simp
qed

lemma py_range_up_head:
  assumes "0 < step" "0 < n"
  shows "\<exists>rest. py_range 0 n step = 0 # rest"
proof -
  have "1 \<le> (n + step - 1) div step"
    using assms by (rule one_le_div)
  then have "0 < nat ((n + step - 1) div step)" by simp
  then show ?thesis using assms by (simp add: py_range_def upt_rec)
qed

lemma py_range_down_bounds:
  assumes "step < 0" "x \<in> set (py_range start stop step)"
  shows "stop < x \<and> x \<le> start"
proof -
  let ?d = "- step"
  have d: "0 < ?d" using assms(1) by simp
  from assms obtain k where k: "k < nat ((start - stop + ?d - 1) div ?d)" and x: "x = start - int k * ?d"
    by (auto simp: py_range_def)
  have "x \<le> start" using x d by (simp add: mult_nonneg_nonpos)
  moreover have "stop < x"
  proof -
    from k have "int k + 1 \<le> (start - stop + ?d - 1) div ?d" by linarith
    then have "(int k + 1) * ?d \<le> ((start - stop + ?d - 1) div ?d) * ?d"
      using d by (simp only: mult_right_mono)
    also have "\<dots> \<le> start - stop + ?d - 1"
      using d by (rule div_mult_le_int)
    finally show ?thesis using x by (simp add: algebra_simps)
  qed
  ultimately show ?thesis by simp
qed

lemma py_range_down_head:
  assumes "step < 0" "stop < start"
  shows "\<exists>rest. py_range start stop step = start # rest"
proof -
  have "1 \<le> ((start - stop) + (- step) - 1) div (- step)"
    using assms by (intro one_le_div) simp_all
  then have "0 < nat ((start - stop - step - 1) div (- step))" by simp
  then show ?thesis using assms by (simp add: py_range_def upt_rec)
qed

lemma append_min_range:
  assumes "step < 0" "m \<le> start"
  shows "\<exists>rest. append_min (py_range start (m - 1) step) m = Inr (start # rest)
              \<and> (\<forall>s \<in> set (start # rest). m \<le> s)"
proof -
  from assms obtain rest where r: "py_range start (m - 1) step = start # rest"
    using py_range_down_head[of step "m - 1" start] by auto
  have b: "\<forall>s \<in> set (start # rest). m \<le> s"
    using py_range_down_bounds[OF assms(1), of _ start "m - 1"] unfolding r by fastforce
  show ?thesis
  proof (cases "last (start # rest) = m")
    case True
    then show ?thesis using r b by (simp add: append_min_def)
  next
    case False
    then show ?thesis using r b by (simp add: append_min_def)
  qed
qed

lemma search_sizes_shape:
  assumes "stamp_size_min cfg \<le> stamp_size_max cfg"
  shows "\<exists>rest. search_sizes_to_try cfg = Inr (max_zone_size cfg # rest)
              \<and> (\<forall>s \<in> set (max_zone_size cfg # rest). min_zone_size cfg \<le> s)"
  unfolding search_sizes_to_try_def
  by (rule append_min_range) (use assms in \<open>simp_all add: min_zone_size_def max_zone_size_def\<close>)

lemma fallback_sizes_shape:
  assumes "stamp_size_min cfg \<le> stamp_size_max cfg"
  shows "\<exists>fs. fallback_sizes cfg = Inr fs \<and> (\<forall>s \<in> set fs. min_zone_size cfg \<le> s)"
proof -
  have "\<exists>rest. append_min (py_range (stamp_size_max cfg + 2 * min_margin) (min_zone_size cfg - 1) (- 50))
           (min_zone_size cfg) = Inr ((stamp_size_max cfg + 2 * min_margin) # rest)
         \<and> (\<forall>s \<in> set ((stamp_size_max cfg + 2 * min_margin) # rest). min_zone_size cfg \<le> s)"
    by (rule append_min_range) (use assms in \<open>simp_all add: min_zone_size_def\<close>)
  then show ?thesis unfolding fallback_sizes_def by blast
qed

lemma scan_step_pos: "0 < scan_step cfg s"
  by (auto simp: scan_step_def)

lemma scan_x_inv:
  assumes "\<And>x st. x \<in> set xs \<Longrightarrow> P st \<Longrightarrow> P (scan_visit cfg H W fm wb s y x st)"
    and "P st"
  shows "P (scan_x cfg H W fm wb s y xs st)"
  using assms by (induction xs arbitrary: st) (simp_all add: Let_def)

lemma scan_y_inv:
  assumes "\<And>y x st. y \<in> set ys \<Longrightarrow> x \<in> set xs \<Longrightarrow> P st
             \<Longrightarrow> P (scan_visit cfg H W fm wb s y x st)"
    and "P st"
  shows "P (scan_y cfg H W fm wb s xs ys st)"
  using assms
proof (induction ys arbitrary: st)
  case Nil
  then show ?case by simp
next
  case (Cons y ys)
  have "P (scan_x cfg H W fm wb s y xs st)"
    by (rule scan_x_inv) (use Cons.prems in auto)
  then show ?case using Cons by (simp add: Let_def)
qed

lemma scan_sizes_inv:
  assumes "\<And>s y x st. s \<in> set sizes \<Longrightarrow> 0 < int W - s \<Longrightarrow> 0 < int H - s
             \<Longrightarrow> y \<in> set (py_range 0 (int H - s) (scan_step cfg s))
             \<Longrightarrow> x \<in> set (py_range 0 (int W - s) (scan_step cfg s))
             \<Longrightarrow> P st \<Longrightarrow> P (scan_visit cfg H W fm wb s y x st)"
    and "P st"
  shows "P (scan_sizes cfg H W fm wb sizes st)"
  using assms
proof (induction sizes arbitrary: st)
  case Nil
  then show ?case by simp
next
  case (Cons s sizes)
  show ?case
  proof (cases "int W - s \<le> 0 \<or> int H - s \<le> 0")
    case True
    then show ?thesis using Cons by (simp add: Let_def)
  next
    case False
    have "P (scan_y cfg H W fm wb s (py_range 0 (int W - s) (scan_step cfg s))
               (py_range 0 (int H - s) (scan_step cfg s)) st)"
      by (rule scan_y_inv) (use Cons.prems False in auto)
    then show ?thesis using Cons False by (simp add: Let_def)
  qed
qed

lemma fold_inv:
  assumes "\<And>x st. x \<in> set xs \<Longrightarrow> P st \<Longrightarrow> P (f x st)" and "P st"
  shows "P (fold f xs st)"
  using assms by (induction xs arbitrary: st) simp_all

lemma fold2_inv:
  assumes "\<And>a b st. a \<in> set as \<Longrightarrow> b \<in> set (bs a) \<Longrightarrow> P st \<Longrightarrow> P (f a b st)" and "P st"
  shows "P (fold (\<lambda>a. fold (f a) (bs a)) as st)"
  by (rule fold_inv[where P = P]) (auto intro: fold_inv assms)

lemma corner_loop_inv:
  assumes "\<And>b st. b \<in> set bases \<Longrightarrow> P st \<Longrightarrow> P (fst (corner_visit cfg H W fm wb s b st))"
    and "P st"
  shows "P (corner_loop cfg H W fm wb s bases st)"
  using assms
proof (induction bases arbitrary: st)
  case Nil
  then show ?case by simp
next
  case (Cons b bases)
  obtain st' brk where v: "corner_visit cfg H W fm wb s b st = (st', brk)"
    by (cases "corner_visit cfg H W fm wb s b st")
  have "P st'" using Cons.prems(1)[of b st] Cons.prems(2) v by simp
  then show ?case using Cons v by (cases brk) simp_all
qed

lemma corner_sizes_inv:
  assumes "\<And>s b st. s \<in> set sizes \<Longrightarrow> b \<in> set (corner_positions_base H W) \<Longrightarrow> P st
             \<Longrightarrow> P (fst (corner_visit cfg H W fm wb s b st))"
    and "P st"
  shows "P (corner_sizes cfg H W fm wb sizes st)"
  using assms
proof (induction sizes arbitrary: st)
  case Nil
  then show ?case by simp
next
  case (Cons s sizes)
  have "P (corner_loop cfg H W fm wb s (corner_positions_base H W) st)"
    by (rule corner_loop_inv) (use Cons.prems in auto)
  then show ?case using Cons by (simp add: Let_def)
qed

lemma secours_sizes_inv:
  assumes "\<And>s b st. s \<in> set sizes \<Longrightarrow> b \<in> set (fallback_positions_base H W) \<Longrightarrow> P st
             \<Longrightarrow> P (secours_visit cfg H W fm wb s b st)"
    and "P st"
  shows "P (secours_sizes cfg H W fm wb sizes st)"
  using assms
proof (induction sizes arbitrary: st)
  case Nil
  then show ?case by simp
next
  case (Cons s sizes)
  have "P (fold (secours_visit cfg H W fm wb s) (fallback_positions_base H W) st)"
    by (rule fold_inv) (use Cons.prems in auto)
  then show ?case using Cons by simp
qed

lemma available_le_max: "available_stamp_size cfg s \<le> stamp_size_max cfg"
  by (simp add: available_stamp_size_def)

lemma scan_visit_cases:
  "scan_visit cfg H W fm wb s y x st = st
   \<or> (\<exists>wr. scan_visit cfg H W fm wb s y x st
             = (Some (x, y, wr, available_stamp_size cfg s, s), available_stamp_size cfg s)
          \<and> stamp_size_min cfg \<le> available_stamp_size cfg s)"
  by (simp add: scan_visit_def Let_def split: option.splits)

lemma scan_visit_ok:
  assumes "0 \<le> x" "x < int W - s" "0 \<le> y" "y < int H - s"
    and "\<forall>bp. fst st = Some bp \<longrightarrow> scan_ok cfg H W bp"
  shows "\<forall>bp. fst (scan_visit cfg H W fm wb s y x st) = Some bp \<longrightarrow> scan_ok cfg H W bp"
  using scan_visit_cases[of cfg H W fm wb s y x st] assms
  by (auto simp: scan_ok_def valid_placement_def placement_of_def available_le_max)

lemma primary_scan_ok:
  assumes "primary_scan cfg H W fm wb sizes = Some bp"
  shows "scan_ok cfg H W bp"
proof -
  have "\<forall>bp. fst (scan_sizes cfg H W fm wb sizes (None, 0)) = Some bp \<longrightarrow> scan_ok cfg H W bp"
  proof (rule scan_sizes_inv)
    fix s y x and st :: scan_state
    assume "y \<in> set (py_range 0 (int H - s) (scan_step cfg s))"
      and "x \<in> set (py_range 0 (int W - s) (scan_step cfg s))"
      and "\<forall>bp. fst st = Some bp \<longrightarrow> scan_ok cfg H W bp"
    then show "\<forall>bp. fst (scan_visit cfg H W fm wb s y x st) = Some bp \<longrightarrow> scan_ok cfg H W bp"
      using py_range_up_bounds[OF scan_step_pos] by (intro scan_visit_ok) blast+
  qed simp
  then show ?thesis using assms unfolding primary_scan_def by blast
qed

lemma refine_visit_same:
  "snd st = available_stamp_size cfg s \<Longrightarrow> refine_visit cfg H W fm wb s y x st = st"
  by (simp add: refine_visit_def Let_def split: option.splits)

lemma refine_scan_none:
  assumes "st = available_stamp_size cfg s"
  shows "refine_scan cfg H W fm wb (x, y, wr, st, s) = (None, st)"
proof -
  have "fold (\<lambda>y. fold (refine_visit cfg H W fm wb s y) (xs y)) ys (None, st) = (None, st)" for xs ys
    by (rule fold2_inv[where P = "\<lambda>r. r = (None, st)"]) (simp_all add: refine_visit_same assms)
  then show ?thesis by (simp add: refine_scan_def Let_def)
qed

lemma refine_unchanged:
  assumes "scan_ok cfg H W bp"
  shows "refine cfg H W fm wb bp = placement_of bp"
proof -
  obtain x y wr st s where bp: "bp = (x, y, wr, st, s)" by (cases bp)
  with assms have "st = available_stamp_size cfg s" by (simp add: scan_ok_def)
  then show ?thesis by (simp add: bp refine_def refine_scan_none)
qed

lemma corner_visit_valid:
  assumes "\<forall>p. fst st = Some p \<longrightarrow> valid_placement cfg H W p"
  shows "\<forall>p. fst (fst (corner_visit cfg H W fm wb s b st)) = Some p \<longrightarrow> valid_placement cfg H W p"
  using assms
  by (auto simp: corner_visit_def Let_def in_page_def valid_placement_def available_le_max
      split: option.splits)

lemma secours_visit_valid:
  assumes "\<forall>p. fst st = Some p \<longrightarrow> valid_placement cfg H W p"
  shows "\<forall>p. fst (secours_visit cfg H W fm wb s b st) = Some p \<longrightarrow> valid_placement cfg H W p"
  using assms
  by (auto simp: secours_visit_def Let_def in_page_def valid_placement_def available_le_max
      split: option.splits)

lemma emergency_visit_valid:
  assumes "\<forall>p. fst st = Some p \<longrightarrow> valid_placement cfg H W p"
  shows "\<forall>p. fst (emergency_visit cfg H W fm wb s b st) = Some p \<longrightarrow> valid_placement cfg H W p"
  using assms
  by (auto simp: emergency_visit_def Let_def in_page_def valid_placement_def available_le_max
      split: option.splits prod.splits)

lemma overlap_visit_valid:
  assumes "\<forall>p. fst st = Some p \<longrightarrow> valid_placement cfg H W p"
  shows "\<forall>p. fst (overlap_visit cfg H W fm wb s b st) = Some p \<longrightarrow> valid_placement cfg H W p"
  using assms
  by (auto simp: overlap_visit_def Let_def in_page_def valid_placement_def available_le_max
      split: option.splits prod.splits)

lemma corner_fallback_valid:
  "corner_fallback cfg H W fm wb sizes = Some p \<Longrightarrow> valid_placement cfg H W p"
proof -
  have "\<forall>p. fst (corner_sizes cfg H W fm wb sizes (None, 0, 0)) = Some p
          \<longrightarrow> valid_placement cfg H W p"
    by (rule corner_sizes_inv) (simp_all add: corner_visit_valid)
  then show "corner_fallback cfg H W fm wb sizes = Some p \<Longrightarrow> valid_placement cfg H W p"
    unfolding corner_fallback_def by blast
qed

lemma secours_fallback_valid:
  "secours_fallback cfg H W fm wb sizes = Some p \<Longrightarrow> valid_placement cfg H W p"
proof -
  have "\<forall>p. fst (secours_sizes cfg H W fm wb sizes (None, 0, 0)) = Some p
          \<longrightarrow> valid_placement cfg H W p"
    by (rule secours_sizes_inv) (simp_all add: secours_visit_valid)
  then show "secours_fallback cfg H W fm wb sizes = Some p \<Longrightarrow> valid_placement cfg H W p"
    unfolding secours_fallback_def by blast
qed

lemma emergency_strict_valid:
  assumes "emergency_strict cfg H W fm wb sizes = Some p"
  shows "valid_placement cfg H W p"
proof -
  have "\<forall>p. fst (fold (\<lambda>s. fold (emergency_visit cfg H W fm wb s) (emergency_positions_base H W))
                 sizes (None, 0, 0, 1)) = Some p \<longrightarrow> valid_placement cfg H W p"
    by (rule fold2_inv) (simp_all add: emergency_visit_valid)
  then show ?thesis using assms
    by (auto simp: emergency_strict_def split: prod.splits if_splits)
qed

lemma emergency_overlap_valid:
  assumes "emergency_overlap cfg H W fm wb sizes = Some p"
  shows "valid_placement cfg H W p"
proof -
  have "\<forall>p. fst (fold (\<lambda>s. fold (overlap_visit cfg H W fm wb s) (emergency_positions_base H W))
                 sizes (None, 0, 0, 1)) = Some p \<longrightarrow> valid_placement cfg H W p"
    by (rule fold2_inv) (simp_all add: overlap_visit_valid)
  then show ?thesis using assms unfolding emergency_overlap_def by blast
qed

lemma forced_position_valid:
  assumes "stamp_size_min cfg \<le> stamp_size_max cfg"
    and "min_zone_size cfg \<le> int W" "min_zone_size cfg \<le> int H"
  shows "valid_placement cfg H W (forced_position cfg H W)"
  using assms
  by (auto simp: forced_position_def valid_placement_def min_zone_size_def Let_def)

lemma fallback_tiers_total:
  assumes "stamp_size_min cfg \<le> stamp_size_max cfg"
  shows "\<exists>t p. fallback_tiers cfg H W fm wb sizes = Inr (t, p)"
  using fallback_sizes_shape[OF assms]
  by (auto simp: fallback_tiers_def split: option.splits)

lemma find_tier_total:
  assumes "stamp_size_min cfg \<le> stamp_size_max cfg"
  shows "\<exists>t p. find_whitest_space_tier cfg H W fm img = Inr (t, p)"
  using search_sizes_shape[OF assms] fallback_tiers_total[OF assms]
  by (auto simp: find_whitest_space_tier_def Let_def split: option.splits)

lemma fallback_tiers_valid:
  assumes "stamp_size_min cfg \<le> stamp_size_max cfg"
    and "min_zone_size cfg \<le> int W" "min_zone_size cfg \<le> int H"
    and "fallback_tiers cfg H W fm wb sizes = Inr (t, p)"
  shows "valid_placement cfg H W p"
  using assms(4) forced_position_valid[OF assms(1-3)]
  by (auto simp: fallback_tiers_def split: sum.splits option.splits
      dest: corner_fallback_valid secours_fallback_valid emergency_strict_valid
        emergency_overlap_valid)

lemma find_tier_valid:
  assumes "stamp_size_min cfg \<le> stamp_size_max cfg"
    and "min_zone_size cfg \<le> int W" "min_zone_size cfg \<le> int H"
    and "find_whitest_space_tier cfg H W fm img = Inr (t, p)"
  shows "valid_placement cfg H W p"
proof -
  obtain sizes where s: "search_sizes_to_try cfg = Inr sizes"
    using search_sizes_shape[OF assms(1)] by blast
  show ?thesis
  proof (cases "primary_scan cfg H W fm (white_binary_of img) sizes")
    case None
    then show ?thesis using assms s
      by (auto simp: find_whitest_space_tier_def Let_def intro: fallback_tiers_valid)
  next
    case (Some bp)
    then have ok: "scan_ok cfg H W bp" by (rule primary_scan_ok)
    then have "refine cfg H W fm (white_binary_of img) bp = placement_of bp"
      by (rule refine_unchanged)
    then show ?thesis using assms(4) s Some ok
      by (auto simp: find_whitest_space_tier_def Let_def scan_ok_def)
  qed
qed

lemma scan_visit_dim:
  assumes "\<not> whiter_than H W wb x y s (9 / 10)"
  shows "scan_visit cfg H W fm wb s y x st = st"
  using assms
  by (auto simp: scan_visit_def whiter_than_def white_threshold_def Let_def split: option.splits)

lemma corner_visit_dim:
  assumes "\<not> (in_page H W (fst b - s) (snd b) s \<and> whiter_than H W wb (fst b - s) (snd b) s (9 / 10))"
  shows "corner_visit cfg H W fm wb s b st = (st, False)"
  using assms
  by (auto simp: corner_visit_def whiter_than_def Let_def split: option.splits)

lemma secours_visit_dim:
  assumes "\<not> (in_page H W (fst b - s) (snd b) s \<and> whiter_than H W wb (fst b - s) (snd b) s (9 / 10))"
  shows "secours_visit cfg H W fm wb s b st = st"
  using assms
  by (auto simp: secours_visit_def whiter_than_def Let_def split: option.splits)

lemma emergency_visit_dim:
  assumes "\<not> (in_page H W (fst b - s) (snd b) s \<and> whiter_than H W wb (fst b - s) (snd b) s (9 / 10))"
  shows "emergency_visit cfg H W fm wb s b st = st"
  using assms
  by (auto simp: emergency_visit_def whiter_than_def Let_def split: option.splits prod.splits)

lemma overlap_visit_dim:
  assumes "\<not> (in_page H W (fst b - s) (snd b) s \<and> whiter_than H W wb (fst b - s) (snd b) s (9 / 10))"
  shows "overlap_visit cfg H W fm wb s b st = st"
  using assms
  by (auto simp: overlap_visit_def whiter_than_def Let_def split: option.splits prod.splits)

lemma no_candidate_forced:
  assumes cfg: "stamp_size_min cfg \<le> stamp_size_max cfg"
    and dim: "\<And>s x y. min_zone_size cfg \<le> s \<Longrightarrow> in_page H W x y s
                \<Longrightarrow> \<not> whiter_than H W (white_binary_of img) x y s (9 / 10)"
  shows "find_whitest_space_tier cfg H W fm img = Inr (T4, forced_position cfg H W)"
proof -
  let ?wb = "white_binary_of img"
  obtain sizes where sizes: "search_sizes_to_try cfg = Inr sizes"
    and sz: "\<forall>s \<in> set sizes. min_zone_size cfg \<le> s"
    using search_sizes_shape[OF cfg] by blast
  obtain fs where fs: "fallback_sizes cfg = Inr fs" and fz: "\<forall>s \<in> set fs. min_zone_size cfg \<le> s"
    using fallback_sizes_shape[OF cfg] by blast
  have "scan_sizes cfg H W fm ?wb sizes (None, 0) = (None, 0)"
  proof (rule scan_sizes_inv[where P = "\<lambda>r. r = (None, 0)"])
    fix s y x and st :: scan_state
    assume s: "s \<in> set sizes"
      and y: "y \<in> set (py_range 0 (int H - s) (scan_step cfg s))"
      and x: "x \<in> set (py_range 0 (int W - s) (scan_step cfg s))"
      and st: "st = (None, 0)"
    have "in_page H W x y s"
      using py_range_up_bounds[OF scan_step_pos x] py_range_up_bounds[OF scan_step_pos y]
      by (simp add: in_page_def)
    then have "\<not> whiter_than H W ?wb x y s (9 / 10)" using dim s sz by blast
    then show "scan_visit cfg H W fm ?wb s y x st = (None, 0)"
      using st by (simp add: scan_visit_dim)
  qed simp
  then have p: "primary_scan cfg H W fm ?wb sizes = None" by (simp add: primary_scan_def)
  have "corner_sizes cfg H W fm ?wb fs (None, 0, 0) = (None, 0, 0)"
    by (rule corner_sizes_inv[where P = "\<lambda>r. r = (None, 0, 0)"])
      (use dim fz in \<open>simp_all add: corner_visit_dim\<close>)
  then have c: "corner_fallback cfg H W fm ?wb fs = None" by (simp add: corner_fallback_def)
  have "secours_sizes cfg H W fm ?wb fs (None, 0, 0) = (None, 0, 0)"
    by (rule secours_sizes_inv[where P = "\<lambda>r. r = (None, 0, 0)"])
      (use dim fz in \<open>simp_all add: secours_visit_dim\<close>)
  then have f: "secours_fallback cfg H W fm ?wb fs = None" by (simp add: secours_fallback_def)
  have "fold (\<lambda>s. fold (emergency_visit cfg H W fm ?wb s) (emergency_positions_base H W))
          sizes (None, 0, 0, 1) = (None, 0, 0, 1)"
    by (rule fold2_inv[where P = "\<lambda>r. r = (None, 0, 0, 1)"])
      (use dim sz in \<open>simp_all add: emergency_visit_dim\<close>)
  then have e: "emergency_strict cfg H W fm ?wb sizes = None" by (simp add: emergency_strict_def)
  have "fold (\<lambda>s. fold (overlap_visit cfg H W fm ?wb s) (emergency_positions_base H W))
          sizes (None, 0, 0, 1) = (None, 0, 0, 1)"
    by (rule fold2_inv[where P = "\<lambda>r. r = (None, 0, 0, 1)"])
      (use dim sz in \<open>simp_all add: overlap_visit_dim\<close>)
  then have v: "emergency_overlap cfg H W fm ?wb sizes = None" by (simp add: emergency_overlap_def)
  show ?thesis
    by (simp add: find_whitest_space_tier_def fallback_tiers_def sizes fs p c f e v)
qed

lemma slice_bound_le: "slice_bound n i \<le> n"
  by (auto simp: slice_bound_def)

lemma py_slice_lt: "r \<in> set (py_slice n lo hi) \<Longrightarrow> r < n"
  using slice_bound_le[of n hi] by (simp add: py_slice_def)

lemma roi_elems:
  assumes "p \<in> set (roi H W m y x s)"
  shows "\<exists>r c. r < H \<and> c < W \<and> p = m r c"
  using assms by (auto simp: roi_def dest: py_slice_lt)

lemma np_sum_const:
  assumes "\<forall>p \<in> set ps. p = v"
  shows "np_sum ps = unat v * length ps"
  using assms unfolding np_sum_def by (induction ps) simp_all

lemma roi_sum_const:
  assumes "\<forall>r<H. \<forall>c<W. m r c = v"
  shows "np_sum (roi H W m y x s) = unat v * length (roi H W m y x s)"
  by (rule np_sum_const) (use assms roi_elems in blast)

lemma py_slice_in_page:
  assumes "0 \<le> lo" "0 \<le> s" "lo + s \<le> int n"
  shows "py_slice n lo (lo + s) = [nat lo ..< nat (lo + s)]"
proof -
  have "min lo (int n) = lo" "min (lo + s) (int n) = lo + s" using assms by simp_all
  then show ?thesis using assms by (simp add: py_slice_def slice_bound_def)
qed

lemma roi_length_in_page:
  assumes "in_page H W x y s" "0 \<le> s"
  shows "length (roi H W m y x s) = nat s * nat s"
proof -
  have "py_slice W x (x + s) = [nat x ..< nat (x + s)]"
    and "py_slice H y (y + s) = [nat y ..< nat (y + s)]"
    using assms by (simp_all add: in_page_def py_slice_in_page)
  moreover have "nat (x + s) - nat x = nat s" "nat (y + s) - nat y = nat s"
    using assms by (simp_all add: in_page_def nat_add_distrib)
  ultimately show ?thesis
    by (simp add: roi_def length_concat comp_def sum_list_triv)
qed

lemma white_ratio_black:
  assumes "\<forall>r<H. \<forall>c<W. img r c = 0"
  shows "\<not> whiter_than H W (white_binary_of img) x y s (9 / 10)"
proof -
  have "\<forall>r<H. \<forall>c<W. white_binary_of img r c = 0"
    using assms by (simp add: white_binary_of_def)
  then have "np_sum (roi H W (white_binary_of img) y x s) = 0"
    using roi_sum_const[of H W "white_binary_of img" 0] by simp
  then show ?thesis
    by (simp add: whiter_than_def white_ratio_of_def)
qed

lemma white_ratio_white:
  assumes "\<forall>r<H. \<forall>c<W. img r c = 255" "in_page H W x y s" "0 < s"
  shows "white_ratio_of (roi H W (white_binary_of img) y x s) = Some 1"
proof -
  let ?ps = "roi H W (white_binary_of img) y x s"
  have "\<forall>r<H. \<forall>c<W. white_binary_of img r c = 255"
    using assms(1) by (simp add: white_binary_of_def)
  then have sum: "np_sum ?ps = 255 * length ?ps"
    using roi_sum_const[of H W "white_binary_of img" 255] by simp
  have len: "length ?ps = nat s * nat s"
    using assms by (intro roi_length_in_page) simp_all
  then have "0 < length ?ps" using assms(3) by simp
  then show ?thesis using sum by (auto simp: white_ratio_of_def)
qed

lemma forbidden_sum_zero:
  assumes "\<forall>r<H. \<forall>c<W. fm r c = 0"
  shows "np_sum (roi H W fm y x s) = 0"
  using roi_sum_const[OF assms] by simp

lemma black_forced:
  assumes "stamp_size_min cfg \<le> stamp_size_max cfg" "\<forall>r<H. \<forall>c<W. img r c = 0"
  shows "find_whitest_space_tier cfg H W fm img = Inr (T4, forced_position cfg H W)"
  by (rule no_candidate_forced) (use assms white_ratio_black in blast)+

lemma in_page_fits: "in_page H W x y s \<Longrightarrow> s \<le> int W \<and> s \<le> int H"
  by (auto simp: in_page_def)

lemma small_forced:
  assumes "stamp_size_min cfg \<le> stamp_size_max cfg"
    and "int W < min_zone_size cfg \<or> int H < min_zone_size cfg"
  shows "find_whitest_space_tier cfg H W fm img = Inr (T4, forced_position cfg H W)"
proof (rule no_candidate_forced)
  fix s x y
  assume "min_zone_size cfg \<le> s" "in_page H W x y s"
  then have False using assms(2) in_page_fits[of H W x y s] by linarith
  then show "\<not> whiter_than H W (white_binary_of img) x y s (9 / 10)" ..
qed (rule assms(1))

lemma forced_position_roomy:
  assumes "min_zone_size cfg + 20 \<le> int W" "min_zone_size cfg + 20 \<le> int H"
  shows "forced_position cfg H W =
           \<lparr>p_x = int W - min_zone_size cfg - 20, p_y = 20, p_size = min_zone_size cfg,
            p_stamp_size = stamp_size_min cfg\<rparr>"
  using assms by (simp add: forced_position_def min_zone_size_def Let_def)

lemma forced_position_small:
  assumes "int W < min_zone_size cfg \<or> int H < min_zone_size cfg"
  shows "p_size (forced_position cfg H W) = min_zone_size cfg"
    and "p_stamp_size (forced_position cfg H W) = stamp_size_min cfg"
    and "int W < p_x (forced_position cfg H W) + p_size (forced_position cfg H W)
         \<or> int H < p_y (forced_position cfg H W) + p_size (forced_position cfg H W)"
  using assms by (auto simp: forced_position_def min_zone_size_def Let_def)

lemma scan_x_flat:
  "scan_x cfg H W fm wb s y xs st = scan_flat cfg H W fm wb (map (\<lambda>x. (s, y, x)) xs) st"
  by (induction xs arbitrary: st) (simp_all add: Let_def)

lemma scan_flat_append:
  assumes "snd st < stamp_size_max cfg"
  shows "scan_flat cfg H W fm wb (as @ bs) st =
           (let st' = scan_flat cfg H W fm wb as st in
            if stamp_size_max cfg \<le> snd st' then st' else scan_flat cfg H W fm wb bs st')"
  using assms
proof (induction as arbitrary: st)
  case Nil
  then show ?case by simp
next
  case (Cons a as)
  obtain s y x where a: "a = (s, y, x)" by (cases a)
  show ?case
  proof (cases "stamp_size_max cfg \<le> snd (scan_visit cfg H W fm wb s y x st)")
    case True
    then show ?thesis by (simp add: a Let_def)
  next
    case False
    then show ?thesis using Cons.IH[of "scan_visit cfg H W fm wb s y x st"]
      by (simp add: a Let_def)
  qed
qed

lemma scan_y_flat:
  assumes "snd st < stamp_size_max cfg"
  shows "scan_y cfg H W fm wb s xs ys st =
           scan_flat cfg H W fm wb (concat (map (\<lambda>y. map (\<lambda>x. (s, y, x)) xs) ys)) st"
  using assms
proof (induction ys arbitrary: st)
  case Nil
  then show ?case by simp
next
  case (Cons y ys)
  let ?st' = "scan_flat cfg H W fm wb (map (\<lambda>x. (s, y, x)) xs) st"
  show ?case
  proof (cases "stamp_size_max cfg \<le> snd ?st'")
    case True
    then show ?thesis using Cons.prems
      by (simp add: scan_x_flat scan_flat_append Let_def)
  next
    case False
    then show ?thesis using Cons.prems Cons.IH[of ?st']
      by (simp add: scan_x_flat scan_flat_append Let_def)
  qed
qed

lemma scan_sizes_flat:
  assumes "snd st < stamp_size_max cfg"
  shows "scan_sizes cfg H W fm wb sizes st =
           scan_flat cfg H W fm wb (scan_positions cfg H W sizes) st"
  using assms
proof (induction sizes arbitrary: st)
  case Nil
  then show ?case by (simp add: scan_positions_def)
next
  case (Cons s sizes)
  have sp: "scan_positions cfg H W (s # sizes) =
              (if 0 < int W - s \<and> 0 < int H - s
               then concat (map (\<lambda>y. map (\<lambda>x. (s, y, x)) (py_range 0 (int W - s) (scan_step cfg s)))
                              (py_range 0 (int H - s) (scan_step cfg s)))
               else []) @ scan_positions cfg H W sizes"
    by (simp add: scan_positions_def)
  show ?case
  proof (cases "0 < int W - s \<and> 0 < int H - s")
    case False
    then show ?thesis using Cons by (auto simp: sp Let_def)
  next
    case True
    let ?row = "concat (map (\<lambda>y. map (\<lambda>x. (s, y, x)) (py_range 0 (int W - s) (scan_step cfg s)))
                              (py_range 0 (int H - s) (scan_step cfg s)))"
    let ?st' = "scan_flat cfg H W fm wb ?row st"
    have y: "scan_y cfg H W fm wb s (py_range 0 (int W - s) (scan_step cfg s))
               (py_range 0 (int H - s) (scan_step cfg s)) st = ?st'"
      using Cons.prems by (rule scan_y_flat)
    show ?thesis
    proof (cases "stamp_size_max cfg \<le> snd ?st'")
      case t: True
      then show ?thesis using Cons.prems True
        by (simp add: sp y scan_flat_append Let_def)
    next
      case f: False
      then show ?thesis using Cons.prems True Cons.IH[of ?st']
        by (simp add: sp y scan_flat_append Let_def)
    qed
  qed
qed

lemma scan_visit_maximal:
  assumes "clean cfg H W fm wb s y x" "available_stamp_size cfg s = stamp_size_max cfg"
    and "stamp_size_min cfg \<le> stamp_size_max cfg"
  shows "\<exists>wr. scan_visit cfg H W fm wb s y x st
               = (Some (x, y, wr, stamp_size_max cfg, s), stamp_size_max cfg)"
  using assms
  by (auto simp: scan_visit_def clean_def whiter_than_def Let_def split: option.splits)

lemma scan_visit_below:
  assumes "\<not> (clean cfg H W fm wb s y x \<and> available_stamp_size cfg s = stamp_size_max cfg)"
    and "snd st < stamp_size_max cfg"
  shows "snd (scan_visit cfg H W fm wb s y x st) < stamp_size_max cfg"
  using assms available_le_max[of cfg s]
  by (auto simp: scan_visit_def clean_def whiter_than_def Let_def split: option.splits)

lemma scan_flat_first_maximal:
  assumes "stamp_size_min cfg \<le> stamp_size_max cfg" "snd st < stamp_size_max cfg"
    and "find (\<lambda>(s, y, x). clean cfg H W fm wb s y x
                            \<and> available_stamp_size cfg s = stamp_size_max cfg) cs
         = Some (s, y, x)"
  shows "\<exists>wr. scan_flat cfg H W fm wb cs st
               = (Some (x, y, wr, stamp_size_max cfg, s), stamp_size_max cfg)"
  using assms(2,3)
proof (induction cs arbitrary: st)
  case Nil
  then show ?case by simp
next
  case (Cons c cs)
  obtain s' y' x' where c: "c = (s', y', x')" by (cases c)
  show ?case
  proof (cases "clean cfg H W fm wb s' y' x' \<and> available_stamp_size cfg s' = stamp_size_max cfg")
    case True
    then have "(s', y', x') = (s, y, x)" using Cons.prems(2) by (simp add: c)
    then show ?thesis
      using scan_visit_maximal[of cfg H W fm wb s y x st] True assms(1)
      by (auto simp: c Let_def)
  next
    case False
    then have b: "snd (scan_visit cfg H W fm wb s' y' x' st) < stamp_size_max cfg"
      using Cons.prems(1) by (rule scan_visit_below)
    have "find (\<lambda>(s, y, x). clean cfg H W fm wb s y x
                            \<and> available_stamp_size cfg s = stamp_size_max cfg) cs
          = Some (s, y, x)"
      using Cons.prems(2) False by (simp add: c)
    then show ?thesis using Cons.IH[OF b] b by (simp add: c Let_def)
  qed
qed

lemma np_sum_concat: "np_sum (concat xss) = sum_list (map np_sum xss)"
  by (induction xss) (simp_all add: np_sum_def)

lemma np_sum_zero_iff: "np_sum ps = 0 \<longleftrightarrow> (\<forall>p \<in> set ps. p = 0)"
  by (induction ps) (auto simp: np_sum_def unat_eq_0)

lemma roi_set_in_page:
  assumes "in_page H W x y s" "0 \<le> s"
  shows "set (roi H W m y x s)
         = {m r c | r c. nat y \<le> r \<and> r < nat (y + s) \<and> nat x \<le> c \<and> c < nat (x + s)}"
proof -
  have "py_slice W x (x + s) = [nat x ..< nat (x + s)]"
    and "py_slice H y (y + s) = [nat y ..< nat (y + s)]"
    using assms by (simp_all add: in_page_def py_slice_in_page)
  then show ?thesis by (fastforce simp: roi_def)
qed

lemma roi_rows_sum:
  assumes "in_page H W x y s" "0 \<le> s" "\<And>r c. m r c = g r"
  shows "np_sum (roi H W m y x s) = nat s * (\<Sum>r\<leftarrow>[nat y ..< nat (y + s)]. unat (g r))"
proof -
  have cols: "py_slice W x (x + s) = [nat x ..< nat (x + s)]"
    and rows: "py_slice H y (y + s) = [nat y ..< nat (y + s)]"
    using assms(1,2) by (simp_all add: in_page_def py_slice_in_page)
  have len: "nat (x + s) - nat x = nat s"
    using assms(1,2) by (simp add: in_page_def nat_add_distrib)
  have row: "np_sum (map (\<lambda>c. m r c) [nat x ..< nat (x + s)]) = nat s * unat (g r)" for r
    using np_sum_const[of "map (\<lambda>c. m r c) [nat x ..< nat (x + s)]" "g r"] assms(3) len
    by simp
  show ?thesis
    by (simp add: roi_def cols rows np_sum_concat comp_def row sum_list_const_mult)
qed

lemma sum_list_all_const:
  "(\<And>r. r \<in> set xs \<Longrightarrow> f r = (a::nat)) \<Longrightarrow> sum_list (map f xs) = length xs * a"
  by (induction xs) simp_all

lemma band_sum:
  "k \<le> n \<Longrightarrow> (\<Sum>r\<leftarrow>[0 ..< n]. if r < k then a else 0) = k * (a::nat)"
proof (induction n)
  case 0
  then show ?case by simp
next
  case (Suc n)
  show ?case
  proof (cases "k \<le> n")
    case True
    then show ?thesis using Suc.IH by simp
  next
    case False
    then have "k = Suc n" using Suc.prems by simp
    moreover have "(\<Sum>r\<leftarrow>[0 ..< n]. if r < Suc n then a else 0) = n * a"
      using sum_list_all_const[of "[0 ..< n]" "\<lambda>r. if r < Suc n then a else 0" a] by simp
    ultimately show ?thesis by simp
  qed
qed

lemma scan_visit_fresh_iff:
  assumes "0 < stamp_size_min cfg" "stamp_size_min cfg \<le> stamp_size_max cfg"
    and "min_zone_size cfg \<le> s" "in_page H W x y s"
  shows "fst (scan_visit cfg H W fm wb s y x (None, 0)) \<noteq> None
         \<longleftrightarrow> np_sum (roi H W fm y x s) = 0
              \<and> white_threshold cfg s < of_nat (np_sum (roi H W wb y x s)) / of_int (s * s) / 255"
proof -
  have s: "0 < s" using assms(1,3) by (simp add: min_zone_size_def min_margin_def)
  have len: "length (roi H W wb y x s) = nat s * nat s"
    using assms(4) s by (intro roi_length_in_page) simp_all
  then have ne: "roi H W wb y x s \<noteq> []" using s by auto
  have "(of_nat (length (roi H W wb y x s)) :: rat) = of_int (s * s)"
    using len s by simp
  then have w: "white_ratio_of (roi H W wb y x s)
           = Some (of_nat (np_sum (roi H W wb y x s)) / of_int (s * s) / 255)"
    using ne by (simp add: white_ratio_of_def)
  have a: "stamp_size_min cfg \<le> available_stamp_size cfg s" "0 < available_stamp_size cfg s"
    using assms(1-3) by (simp_all add: available_stamp_size_def min_zone_size_def)
  show ?thesis using a by (simp add: scan_visit_def w Let_def)
qed

lemma two_le_Suc_Suc: "2 \<le> (n::nat) \<Longrightarrow> \<exists>m. n = Suc (Suc m)"
  by presburger

lemma py_range_up_head2:
  assumes "0 < step" "step < n"
  shows "\<exists>rest. py_range 0 n step = 0 # step # rest"
proof -
  have "(2 * step) div step \<le> (n + step - 1) div step"
    using assms by (intro zdiv_mono1) simp_all
  then have "2 \<le> (n + step - 1) div step" using assms(1) by simp
  then have "2 \<le> nat ((n + step - 1) div step)" by simp
  then obtain m where "nat ((n + step - 1) div step) = Suc (Suc m)"
    using two_le_Suc_Suc by blast
  then show ?thesis using assms by (simp add: py_range_def upt_rec)
qed

lemma scan_positions_head2:
  assumes "0 < int W - s" "0 < int H - s" "scan_step cfg s < int W - s"
  shows "\<exists>rest. scan_positions cfg H W (s # sizes)
                = (s, 0, 0) # (s, 0, scan_step cfg s) # rest"
proof -
  obtain xs where xs: "py_range 0 (int W - s) (scan_step cfg s) = 0 # scan_step cfg s # xs"
    using py_range_up_head2[OF scan_step_pos assms(3)] by blast
  obtain ys where ys: "py_range 0 (int H - s) (scan_step cfg s) = 0 # ys"
    using py_range_up_head[OF scan_step_pos assms(2)] by blast
  show ?thesis using assms(1,2) by (simp add: scan_positions_def xs ys)
qed

lemma band_ratio:
  "of_nat (np_sum (roi 500 500 (white_binary_of (\<lambda>r c. if r < 380 then 255 else 0)) 0 0 400))
     / of_int (400 * 400) / 255 = (95 / 100 :: rat)"
proof -
  let ?g = "\<lambda>r::nat. if r < 380 then 255 else (0 :: 8 word)"
  have "np_sum (roi 500 500 (white_binary_of (\<lambda>r c. if r < 380 then 255 else 0)) 0 0 400)
        = nat 400 * (\<Sum>r\<leftarrow>[nat 0 ..< nat (0 + 400)]. unat (?g r))"
    by (rule roi_rows_sum) (simp_all add: in_page_def white_binary_of_def)
  also have "(\<Sum>r\<leftarrow>[nat 0 ..< nat (0 + 400)]. unat (?g r))
             = (\<Sum>r\<leftarrow>[0 ..< 400]. if r < 380 then 255 else 0)"
    by (simp add: if_distrib cong: if_cong)
  also have "\<dots> = 380 * 255" by (rule band_sum) simp
  finally show ?thesis by simp
qed

lemma clean_on_white:
  assumes "\<forall>r<H. \<forall>c<W. img r c = 255" "in_page H W x y s" "0 < s"
  shows "clean cfg H W fm (white_binary_of img) s y x \<longleftrightarrow> np_sum (roi H W fm y x s) = 0"
  using white_ratio_white[OF assms]
  by (simp add: clean_def whiter_than_def white_threshold_def)

lemma primary_first_maximal:
  assumes "0 < stamp_size_max cfg" "stamp_size_min cfg \<le> stamp_size_max cfg"
    and "search_sizes_to_try cfg = Inr sizes"
    and "find (\<lambda>(s, y, x). clean cfg H W fm (white_binary_of img) s y x
                            \<and> available_stamp_size cfg s = stamp_size_max cfg)
           (scan_positions cfg H W sizes) = Some (s, y, x)"
  shows "find_whitest_space_tier cfg H W fm img
         = Inr (PRIMARY, \<lparr>p_x = x, p_y = y, p_size = s, p_stamp_size = stamp_size_max cfg\<rparr>)"
proof -
  let ?wb = "white_binary_of img"
  have "scan_sizes cfg H W fm ?wb sizes (None, 0)
        = scan_flat cfg H W fm ?wb (scan_positions cfg H W sizes) (None, 0)"
    using assms(1) by (intro scan_sizes_flat) simp
  then obtain wr where p: "primary_scan cfg H W fm ?wb sizes = Some (x, y, wr, stamp_size_max cfg, s)"
    using scan_flat_first_maximal[OF assms(2) _ assms(4), of "(None, 0)"] assms(1)
    by (auto simp: primary_scan_def)
  then have "refine cfg H W fm ?wb (x, y, wr, stamp_size_max cfg, s)
             = placement_of (x, y, wr, stamp_size_max cfg, s)"
    by (intro refine_unchanged primary_scan_ok)
  then show ?thesis
    by (simp add: find_whitest_space_tier_def assms(3) p placement_of_def)
qed

lemma py_range_down_rec:
  assumes "step < 0" "stop < start"
  shows "py_range start stop step = start # py_range (start + step) stop step"
proof -
  define d where "d = - step"
  define X where "X = start + step - stop - step - 1"
  define B where "B = X div d"
  define A where "A = (start - stop - step - 1) div d"
  have d: "0 < d" using assms(1) by (simp add: d_def)
  have "start - stop - step - 1 = X + d" by (simp add: d_def X_def)
  then have "A = (X + d) div d" by (simp only: A_def)
  also have "\<dots> = B + 1" unfolding B_def using d by simp
  finally have "A = B + 1" .
  moreover have "0 \<le> B"
    unfolding B_def X_def using assms d by (simp add: pos_imp_zdiv_nonneg_iff)
  ultimately have n: "nat A = Suc (nat B)" by (simp add: Suc_nat_eq_nat_zadd1)
  have l: "py_range start stop step = map (\<lambda>k. start + int k * step) [0 ..< nat A]"
    using assms(1) by (simp add: py_range_def A_def d_def)
  have r: "py_range (start + step) stop step
           = map (\<lambda>k. start + step + int k * step) [0 ..< nat B]"
    using assms(1) by (simp add: py_range_def B_def X_def d_def)
  have "map (\<lambda>k. start + int k * step) [0 ..< Suc m]
        = start # map (\<lambda>k. start + step + int k * step) [0 ..< m]" for m
    by (simp add: upt_conv_Cons map_Suc_upt[symmetric] algebra_simps del: upt_Suc)
  then show ?thesis unfolding l r n by blast
qed

lemma first_fit:
  assumes "m + 5 \<le> M" "m \<le> a"
  shows "\<exists>pre s1 post. py_range a (m - 1) (- 5) = pre @ s1 # post
           \<and> (\<forall>s \<in> set pre. M \<le> s) \<and> s1 < M
           \<and> (if a < M then s1 = a else M - 5 \<le> s1)"
  using assms(2)
proof (induction "nat (a - m)" arbitrary: a rule: less_induct)
  case less
  have rec: "py_range a (m - 1) (- 5) = a # py_range (a + - 5) (m - 1) (- 5)"
    using less.prems by (intro py_range_down_rec) simp_all
  show ?case
  proof (cases "a < M")
    case True
    then show ?thesis using rec
      by (intro exI[of _ "[]"] exI[of _ a] exI[of _ "py_range (a + - 5) (m - 1) (- 5)"]) simp
  next
    case False
    then have "m \<le> a - 5" using assms(1) by simp
    moreover have "nat (a - 5 - m) < nat (a - m)" using \<open>m \<le> a - 5\<close> by simp
    ultimately obtain pre s1 post where
      h: "py_range (a - 5) (m - 1) (- 5) = pre @ s1 # post" "\<forall>s \<in> set pre. M \<le> s" "s1 < M"
         "if a - 5 < M then s1 = a - 5 else M - 5 \<le> s1"
      using less.hyps[of "a - 5"] by blast
    have "py_range a (m - 1) (- 5) = (a # pre) @ s1 # post" using rec h(1) by simp
    moreover have "\<forall>s \<in> set (a # pre). M \<le> s" using h(2) False by simp
    moreover have "M - 5 \<le> s1" using h(4) False by (auto split: if_splits)
    ultimately have "py_range a (m - 1) (- 5) = (a # pre) @ s1 # post
        \<and> (\<forall>s \<in> set (a # pre). M \<le> s) \<and> s1 < M
        \<and> (if a < M then s1 = a else M - 5 \<le> s1)"
      using h(3) False by simp
    then show ?thesis by blast
  qed
qed

lemma scan_positions_append:
  "scan_positions cfg H W (as @ bs) = scan_positions cfg H W as @ scan_positions cfg H W bs"
  by (simp add: scan_positions_def)

lemma scan_positions_nofit:
  assumes "\<forall>s \<in> set sizes. int W \<le> s \<or> int H \<le> s"
  shows "scan_positions cfg H W sizes = []"
  using assms by (induction sizes) (auto simp: scan_positions_def)

lemma scan_positions_head:
  assumes "0 < int W - s" "0 < int H - s"
  shows "\<exists>rest. scan_positions cfg H W (s # sizes) = (s, 0, 0) # rest"
proof -
  obtain xs where xs: "py_range 0 (int W - s) (scan_step cfg s) = 0 # xs"
    using py_range_up_head[OF scan_step_pos assms(1)] by blast
  obtain ys where ys: "py_range 0 (int H - s) (scan_step cfg s) = 0 # ys"
    using py_range_up_head[OF scan_step_pos assms(2)] by blast
  show ?thesis using assms by (simp add: scan_positions_def xs ys)
qed

lemma search_sizes_first_fit:
  assumes "stamp_size_min cfg \<le> stamp_size_max cfg" "min_zone_size cfg + 5 \<le> M"
  shows "\<exists>pre s1 post. search_sizes_to_try cfg = Inr (pre @ s1 # post)
           \<and> (\<forall>s \<in> set pre. M \<le> s) \<and> s1 < M
           \<and> (if max_zone_size cfg < M then s1 = max_zone_size cfg else M - 5 \<le> s1)"
proof -
  let ?L = "py_range (max_zone_size cfg) (min_zone_size cfg - 1) (- 5)"
  have "min_zone_size cfg \<le> max_zone_size cfg"
    using assms(1) by (simp add: min_zone_size_def max_zone_size_def)
  then obtain pre s1 post where
    h: "?L = pre @ s1 # post" "\<forall>s \<in> set pre. M \<le> s" "s1 < M"
       "if max_zone_size cfg < M then s1 = max_zone_size cfg else M - 5 \<le> s1"
    using first_fit[OF assms(2)] by blast
  have "search_sizes_to_try cfg = Inr (pre @ s1 # post)
        \<or> search_sizes_to_try cfg = Inr (pre @ s1 # (post @ [min_zone_size cfg]))"
    by (auto simp: search_sizes_to_try_def append_min_def h(1))
  then show ?thesis using h(2-4) by blast
qed

lemma white_primary_general:
  assumes "0 < stamp_size_max cfg" "stamp_size_min cfg \<le> stamp_size_max cfg"
    and "stamp_size_max cfg + 2 * min_margin + 5 \<le> int W"
    and "stamp_size_max cfg + 2 * min_margin + 5 \<le> int H"
    and "\<forall>r<H. \<forall>c<W. img r c = 255" "\<forall>r<H. \<forall>c<W. fm r c = 0"
  shows "\<exists>s. find_whitest_space_tier cfg H W fm img
               = Inr (PRIMARY, \<lparr>p_x = 0, p_y = 0, p_size = s,
                                p_stamp_size = stamp_size_max cfg\<rparr>)
             \<and> stamp_size_max cfg + 2 * min_margin \<le> s \<and> s < int W \<and> s < int H
             \<and> (if max_zone_size cfg < int W \<and> max_zone_size cfg < int H
                  then s = max_zone_size cfg else int W \<le> s + 5 \<or> int H \<le> s + 5)"
proof -
  let ?M = "min (int W) (int H)"
  have "min_zone_size cfg + 5 \<le> ?M"
    using assms(2-4) by (simp add: min_zone_size_def)
  then obtain pre s1 post where
    sizes: "search_sizes_to_try cfg = Inr (pre @ s1 # post)"
    and pre: "\<forall>s \<in> set pre. ?M \<le> s" and s1: "s1 < ?M"
    and big: "if max_zone_size cfg < ?M then s1 = max_zone_size cfg else ?M - 5 \<le> s1"
    using search_sizes_first_fit[OF assms(2)] by blast
  have lo: "stamp_size_max cfg + 2 * min_margin \<le> s1"
    using big assms(3,4) by (auto simp: max_zone_size_def split: if_splits)
  have pos: "0 < s1" using lo assms(1) by (simp add: min_margin_def)
  have "\<forall>s \<in> set pre. int W \<le> s \<or> int H \<le> s" using pre by auto
  then have "scan_positions cfg H W pre = []" by (rule scan_positions_nofit)
  moreover obtain rest where "scan_positions cfg H W (s1 # post) = (s1, 0, 0) # rest"
    using scan_positions_head[of W s1 H cfg post] s1 by auto
  ultimately have sp: "scan_positions cfg H W (pre @ s1 # post) = (s1, 0, 0) # rest"
    by (simp add: scan_positions_append)
  have "in_page H W 0 0 s1" using s1 by (simp add: in_page_def)
  then have "clean cfg H W fm (white_binary_of img) s1 0 0"
    using clean_on_white[OF assms(5) _ pos, of 0 0 cfg fm] forbidden_sum_zero[OF assms(6)]
    by simp
  moreover have "available_stamp_size cfg s1 = stamp_size_max cfg"
    using lo by (simp add: available_stamp_size_def)
  ultimately have "find (\<lambda>(s, y, x). clean cfg H W fm (white_binary_of img) s y x
                            \<and> available_stamp_size cfg s = stamp_size_max cfg)
           (scan_positions cfg H W (pre @ s1 # post)) = Some (s1, 0, 0)"
    by (simp add: sp)
  then have "find_whitest_space_tier cfg H W fm img
             = Inr (PRIMARY, \<lparr>p_x = 0, p_y = 0, p_size = s1,
                              p_stamp_size = stamp_size_max cfg\<rparr>)"
    by (rule primary_first_maximal[OF assms(1,2) sizes])
  moreover have "if max_zone_size cfg < int W \<and> max_zone_size cfg < int H
                 then s1 = max_zone_size cfg else int W \<le> s1 + 5 \<or> int H \<le> s1 + 5"
    using big by (auto split: if_splits)
  ultimately show ?thesis using lo s1 by auto
qed

lemma cli_scan_sizes_nofit:
  assumes "\<forall>s \<in> set sizes. int W \<le> s \<or> int H \<le> s"
  shows "cli_scan_sizes cfg H W fm wb sizes st = Inr st"
  using assms by (induction sizes) (auto simp: Let_def)

lemma cli_search_sizes_ge:
  "s \<in> set (cli_search_sizes cfg) \<Longrightarrow> min_zone_size cfg \<le> s"
  using py_range_down_bounds[of "- 5" s "max_zone_size cfg" "min_zone_size cfg - 1"]
  by (simp add: cli_search_sizes_def)

lemma cli_narrow_page_last_resort:
  assumes "int W \<le> min_zone_size cfg"
  shows "cli_find_whitest_space cfg H W fm img
         = \<lparr>p_x = int W - stamp_size_min cfg - 40, p_y = 20,
            p_size = stamp_size_min cfg + 20, p_stamp_size = stamp_size_min cfg\<rparr>"
proof -
  have "\<forall>s \<in> set (cli_search_sizes cfg). int W \<le> s \<or> int H \<le> s"
    using assms cli_search_sizes_ge[of _ cfg] by fastforce
  then have "cli_scan_sizes cfg H W fm (white_binary_of img) (cli_search_sizes cfg) (None, 0)
             = Inr (None, 0)"
    by (rule cli_scan_sizes_nofit)
  moreover have "cli_corner_fallback cfg H W
         = \<lparr>p_x = int W - stamp_size_min cfg - 40, p_y = 20,
            p_size = stamp_size_min cfg + 20, p_stamp_size = stamp_size_min cfg\<rparr>"
    using assms
    by (simp add: cli_corner_fallback_def cli_corners_def min_zone_size_def min_margin_def)
  ultimately show ?thesis by (simp add: cli_find_whitest_space_def)
qed

section \<open>The claims\<close>

text \<open>
  Totality of the engine of src/server.py. For every valid configuration
  (\<open>stamp_size_min \<le> stamp_size_max\<close>; \<open>min_margin\<close> is the constant 5) and every page,
  whatever the detectors marked as forbidden, \<open>find_whitest_space\<close> returns a placement:
  it raises nothing and never answers "no location". The page size is not needed for
  this.
\<close>

theorem find_whitest_space_total:
  assumes "stamp_size_min cfg \<le> stamp_size_max cfg"
  shows "\<exists>p. find_whitest_space cfg H W forbidden_mask img = Inr p"
  using find_tier_total[OF assms, of H W forbidden_mask img]
  by (auto simp: find_whitest_space_def)

theorem find_whitest_space_total_witness:
  "(200::int) \<le> 300
   \<and> (\<exists>p. find_whitest_space \<lparr>stamp_size_max = 300, stamp_size_min = 200\<rparr> 2970 2100
              (\<lambda>r c. 0) (\<lambda>r c. 255) = Inr p)"
  using find_whitest_space_total[of "\<lparr>stamp_size_max = 300, stamp_size_min = 200\<rparr>"
      2970 2100 "\<lambda>r c. 0" "\<lambda>r c. 255"]
  by simp

text \<open>
  Claim C1 (totality: a placement is returned for every page at least
  \<open>stamp_size_min + 2 * min_margin\<close> wide and high). The engine of src/server.py does so,
  as shown above, and its forced placement is clamped into the page. The command-line
  copy does not: on a page of exactly that size, 100 by 100 pixels with its stamps between
  90 and 300 (or 210 by 210 pixels with stamps between 200 and 300), no search size leaves
  room, none of the four corners passes its test, and the last resort returns \<open>x = -30\<close>
  whatever the page holds. The caller takes a negative \<open>x\<close> for "no location" and leaves
  the page without a stamp.
\<close>

theorem cli_last_resort_off_page:
  "min_zone_size \<lparr>stamp_size_max = 300, stamp_size_min = 90\<rparr> \<le> 100
   \<and> cli_find_whitest_space \<lparr>stamp_size_max = 300, stamp_size_min = 90\<rparr> 100 100
         (\<lambda>r c. 0) (\<lambda>r c. 255)
       = \<lparr>p_x = - 30, p_y = 20, p_size = 110, p_stamp_size = 90\<rparr>
   \<and> \<not> cli_page_is_stamped
         (cli_find_whitest_space \<lparr>stamp_size_max = 300, stamp_size_min = 90\<rparr> 100 100
            (\<lambda>r c. 0) (\<lambda>r c. 255))
   \<and> min_zone_size \<lparr>stamp_size_max = 300, stamp_size_min = 200\<rparr> \<le> 210
   \<and> cli_find_whitest_space \<lparr>stamp_size_max = 300, stamp_size_min = 200\<rparr> 210 210
         (\<lambda>r c. 0) (\<lambda>r c. 255)
       = \<lparr>p_x = - 30, p_y = 20, p_size = 220, p_stamp_size = 200\<rparr>
   \<and> \<not> cli_page_is_stamped
         (cli_find_whitest_space \<lparr>stamp_size_max = 300, stamp_size_min = 200\<rparr> 210 210
            (\<lambda>r c. 0) (\<lambda>r c. 255))"
proof -
  let ?cli = "\<lparr>stamp_size_max = 300, stamp_size_min = 90\<rparr>"
  let ?srv = "\<lparr>stamp_size_max = 300, stamp_size_min = 200\<rparr>"
  have "cli_find_whitest_space ?cli 100 100 (\<lambda>r c. 0) (\<lambda>r c. 255)
        = \<lparr>p_x = int 100 - stamp_size_min ?cli - 40, p_y = 20,
           p_size = stamp_size_min ?cli + 20, p_stamp_size = stamp_size_min ?cli\<rparr>"
    by (rule cli_narrow_page_last_resort) (simp add: min_zone_size_def min_margin_def)
  moreover have "cli_find_whitest_space ?srv 210 210 (\<lambda>r c. 0) (\<lambda>r c. 255)
        = \<lparr>p_x = int 210 - stamp_size_min ?srv - 40, p_y = 20,
           p_size = stamp_size_min ?srv + 20, p_stamp_size = stamp_size_min ?srv\<rparr>"
    by (rule cli_narrow_page_last_resort) (simp add: min_zone_size_def min_margin_def)
  ultimately show ?thesis
    by (simp add: cli_page_is_stamped_def min_zone_size_def min_margin_def)
qed

text \<open>
  Claim C2 (placement invariant). When both page dimensions are at least
  \<open>stamp_size_min + 2 * min_margin\<close> and \<open>stamp_size_min \<le> stamp_size_max\<close>, the returned
  placement lies inside the page, \<open>0 \<le> x\<close>, \<open>0 \<le> y\<close>, \<open>x + zone \<le> W\<close>, \<open>y + zone \<le> H\<close>,
  and its stamp size lies between \<open>stamp_size_min\<close> and \<open>stamp_size_max\<close>.
\<close>

theorem find_whitest_space_in_page:
  assumes "stamp_size_min cfg \<le> stamp_size_max cfg"
    and "stamp_size_min cfg + 2 * min_margin \<le> int W"
    and "stamp_size_min cfg + 2 * min_margin \<le> int H"
  shows "\<exists>p. find_whitest_space cfg H W forbidden_mask img = Inr p
             \<and> 0 \<le> p_x p \<and> 0 \<le> p_y p
             \<and> p_x p + p_size p \<le> int W \<and> p_y p + p_size p \<le> int H
             \<and> stamp_size_min cfg \<le> p_stamp_size p \<and> p_stamp_size p \<le> stamp_size_max cfg"
proof -
  obtain t p where r: "find_whitest_space_tier cfg H W forbidden_mask img = Inr (t, p)"
    using find_tier_total[OF assms(1)] by blast
  have "valid_placement cfg H W p"
    using assms r by (intro find_tier_valid[of cfg W H forbidden_mask img t p])
      (simp_all add: min_zone_size_def)
  then show ?thesis using r by (simp add: find_whitest_space_def valid_placement_def)
qed

theorem find_whitest_space_in_page_witness:
  "\<exists>p. find_whitest_space \<lparr>stamp_size_max = 300, stamp_size_min = 200\<rparr> 2970 2100
          (\<lambda>r c. 255) (\<lambda>r c. 128) = Inr p
       \<and> 0 \<le> p_x p \<and> 0 \<le> p_y p \<and> p_x p + p_size p \<le> 2100 \<and> p_y p + p_size p \<le> 2970
       \<and> 200 \<le> p_stamp_size p \<and> p_stamp_size p \<le> 300"
  using find_whitest_space_in_page[of "\<lparr>stamp_size_max = 300, stamp_size_min = 200\<rparr>"
      2100 2970 "\<lambda>r c. 255" "\<lambda>r c. 128"]
  by (simp add: min_margin_def)

text \<open>
  Claim C3 (pages below the minimal zone), as amended. The function has no check of the
  page size. When the width or the height is smaller than \<open>stamp_size_min + 2 * min_margin\<close>
  (and \<open>stamp_size_min \<le> stamp_size_max\<close>), no tier finds a square that fits, and the
  function returns the forced placement of line 788 without any error: its zone is
  \<open>stamp_size_min + 2 * min_margin\<close>, its stamp is \<open>stamp_size_min\<close>, and the zone sticks out
  of the page.
\<close>

theorem small_page_forced_placement:
  assumes "stamp_size_min cfg \<le> stamp_size_max cfg"
    and "int W < stamp_size_min cfg + 2 * min_margin
         \<or> int H < stamp_size_min cfg + 2 * min_margin"
  shows "\<exists>p. find_whitest_space_tier cfg H W forbidden_mask img = Inr (T4, p)
             \<and> p = forced_position cfg H W
             \<and> p_size p = stamp_size_min cfg + 2 * min_margin
             \<and> p_stamp_size p = stamp_size_min cfg
             \<and> (int W < p_x p + p_size p \<or> int H < p_y p + p_size p)"
proof -
  have small: "int W < min_zone_size cfg \<or> int H < min_zone_size cfg"
    using assms(2) by (simp add: min_zone_size_def)
  show ?thesis
    using small_forced[OF assms(1) small] forced_position_small[OF small]
    by (simp add: min_zone_size_def)
qed

theorem small_page_forced_placement_witness:
  "\<exists>p. find_whitest_space_tier \<lparr>stamp_size_max = 300, stamp_size_min = 200\<rparr> 100 2100
          (\<lambda>r c. 0) (\<lambda>r c. 255) = Inr (T4, p)
       \<and> p = forced_position \<lparr>stamp_size_max = 300, stamp_size_min = 200\<rparr> 100 2100
       \<and> p_size p = 210 \<and> p_stamp_size p = 200
       \<and> (2100 < p_x p + p_size p \<or> 100 < p_y p + p_size p)"
  using small_page_forced_placement[of "\<lparr>stamp_size_max = 300, stamp_size_min = 200\<rparr>"
      2100 100 "\<lambda>r c. 0" "\<lambda>r c. 255"]
  by (auto simp: min_margin_def)

text \<open>
  The scenario of the specification, a page of 209 by 209 pixels with
  \<open>stamp_size_min = 200\<close>: no error is signalled, a placement of zone 210 is returned.
\<close>

theorem small_page_counterexample:
  "find_whitest_space \<lparr>stamp_size_max = 300, stamp_size_min = 200\<rparr> 209 209
     (\<lambda>r c. 0) (\<lambda>r c. 255)
   = Inr \<lparr>p_x = 0, p_y = 0, p_size = 210, p_stamp_size = 200\<rparr>"
proof -
  let ?cfg = "\<lparr>stamp_size_max = 300, stamp_size_min = 200\<rparr>"
  have "find_whitest_space_tier ?cfg 209 209 (\<lambda>r c. 0) (\<lambda>r c. 255)
        = Inr (T4, forced_position ?cfg 209 209)"
    by (rule small_forced) (simp_all add: min_zone_size_def min_margin_def)
  then show ?thesis
    by (simp add: find_whitest_space_def forced_position_def min_margin_def)
qed

text \<open>
  Claim C4 (clean candidate), as amended. In the primary scan, for a valid configuration
  (\<open>0 < stamp_size_min \<le> stamp_size_max\<close>), a square of side
  \<open>s \<ge> stamp_size_min + 2 * min_margin\<close> inside the page is accepted (recorded as the best
  position when nothing was recorded before) exactly when the sum of the forbidden mask
  over the square is 0 and the mean of the whiteness mask over the square divided by 255
  is strictly greater than \<open>\<theta>\<close>, where \<open>\<theta> = 0.95\<close> when
  \<open>s \<ge> stamp_size_max + 2 * min_margin - 20\<close> and \<open>0.98\<close> otherwise.
\<close>

theorem primary_candidate_accepted_iff:
  assumes "0 < stamp_size_min cfg" and "stamp_size_min cfg \<le> stamp_size_max cfg"
    and "stamp_size_min cfg + 2 * min_margin \<le> s"
    and "0 \<le> x" and "0 \<le> y" and "x + s \<le> int W" and "y + s \<le> int H"
  shows "fst (scan_visit cfg H W forbidden_mask white_binary s y x (None, 0)) \<noteq> None
         \<longleftrightarrow> np_sum (roi H W forbidden_mask y x s) = 0
              \<and> (if stamp_size_max cfg + 2 * min_margin - 20 \<le> s then 95 / 100 else 98 / 100)
                 < (of_nat (np_sum (roi H W white_binary y x s)) / of_int (s * s) / 255 :: rat)"
  using scan_visit_fresh_iff[of cfg s H W x y forbidden_mask white_binary] assms
  by (simp add: min_zone_size_def in_page_def white_threshold_def is_large_def)

text \<open>A white square of side 400 on a page without forbidden pixels is accepted.\<close>

theorem primary_candidate_accepted_iff_witness:
  "fst (scan_visit \<lparr>stamp_size_max = 300, stamp_size_min = 200\<rparr> 500 500
          (\<lambda>r c. 0) (\<lambda>r c. 255) 400 0 0 (None, 0)) \<noteq> None"
proof -
  have f: "np_sum (roi 500 500 (\<lambda>r c. 0) 0 0 400) = 0"
    by (rule forbidden_sum_zero) simp
  have "np_sum (roi 500 500 (\<lambda>r c. 255) 0 0 400)
        = unat (255 :: 8 word) * length (roi 500 500 (\<lambda>r c. 255 :: 8 word) 0 0 400)"
    by (rule roi_sum_const) simp
  moreover have "length (roi 500 500 (\<lambda>r c. 255 :: 8 word) 0 0 400) = nat 400 * nat 400"
    by (rule roi_length_in_page) (simp_all add: in_page_def)
  ultimately have w: "np_sum (roi 500 500 (\<lambda>r c. 255) 0 0 400) = 255 * (400 * 400)"
    by simp
  show ?thesis
    using primary_candidate_accepted_iff[of "\<lparr>stamp_size_max = 300, stamp_size_min = 200\<rparr>"
        400 0 0 500 500 "\<lambda>r c. 0" "\<lambda>r c. 255"]
    unfolding f w by (simp add: min_margin_def)
qed

text \<open>
  The claim as stated, with "at least \<open>\<theta>\<close>": a square of side 400 whose whiteness
  ratio is exactly 0.95 (380 white rows out of 400), free of forbidden pixels, is not
  accepted.
\<close>

theorem whiteness_threshold_counterexample:
  "\<not> (fst (scan_visit \<lparr>stamp_size_max = 300, stamp_size_min = 200\<rparr> 500 500 (\<lambda>r c. 0)
             (white_binary_of (\<lambda>r c. if r < 380 then 255 else 0)) 400 0 0 (None, 0)) \<noteq> None
       \<longleftrightarrow> np_sum (roi 500 500 (\<lambda>r c. 0) 0 0 400) = 0
            \<and> (if 300 + 2 * 5 - 20 \<le> (400::int) then 95 / 100 else 98 / 100)
               \<le> (of_nat (np_sum (roi 500 500
                     (white_binary_of (\<lambda>r c. if r < 380 then 255 else 0)) 0 0 400))
                     / of_int (400 * 400) / 255 :: rat))"
proof -
  let ?cfg = "\<lparr>stamp_size_max = 300, stamp_size_min = 200\<rparr>"
  let ?wb = "white_binary_of (\<lambda>r c. if r < 380 then 255 else 0)"
  have f: "np_sum (roi 500 500 (\<lambda>r c. 0) 0 0 400) = 0"
    by (rule forbidden_sum_zero) simp
  have "fst (scan_visit ?cfg 500 500 (\<lambda>r c. 0) ?wb 400 0 0 (None, 0)) \<noteq> None
        \<longleftrightarrow> np_sum (roi 500 500 (\<lambda>r c. 0) 0 0 400) = 0
             \<and> white_threshold ?cfg 400
                < of_nat (np_sum (roi 500 500 ?wb 0 0 400)) / of_int (400 * 400) / 255"
    by (rule scan_visit_fresh_iff)
      (simp_all add: min_zone_size_def min_margin_def in_page_def)
  moreover have "\<not> white_threshold ?cfg 400 < 95 / 100"
    by (simp add: white_threshold_def is_large_def min_margin_def)
  ultimately have "\<not> fst (scan_visit ?cfg 500 500 (\<lambda>r c. 0) ?wb 400 0 0 (None, 0)) \<noteq> None"
    unfolding band_ratio by blast
  moreover have "(if 300 + 2 * 5 - 20 \<le> (400::int) then 95 / 100 else 98 / 100) \<le> (95 / 100 :: rat)"
    by simp
  ultimately show ?thesis unfolding band_ratio using f by blast
qed

text \<open>
  Claim C5 (white page). On a uniformly white page on which the detectors mark nothing,
  at least \<open>stamp_size_max + 2 * min_margin + 5\<close> wide and high, with \<open>0 < stamp_size_max\<close>
  and \<open>stamp_size_min \<le> stamp_size_max\<close>, the result comes from the primary scan, which
  stops at the first position \<open>(0, 0)\<close> of the first search size that fits, with
  \<open>stamp = stamp_size_max\<close>. When the page is larger than the largest search size
  \<open>max (stamp_size_max + 2 * min_margin) 410\<close>, that size is the zone; otherwise the zone is
  within 5 pixels of the smaller page dimension.
\<close>

theorem white_page_primary_max:
  assumes "0 < stamp_size_max cfg" and "stamp_size_min cfg \<le> stamp_size_max cfg"
    and "stamp_size_max cfg + 2 * min_margin + 5 \<le> int W"
    and "stamp_size_max cfg + 2 * min_margin + 5 \<le> int H"
    and "\<forall>r<H. \<forall>c<W. img r c = 255"
    and "\<forall>r<H. \<forall>c<W. forbidden_mask r c = 0"
  shows "\<exists>s. find_whitest_space_tier cfg H W forbidden_mask img
               = Inr (PRIMARY, \<lparr>p_x = 0, p_y = 0, p_size = s,
                                p_stamp_size = stamp_size_max cfg\<rparr>)
             \<and> (if max (stamp_size_max cfg + 2 * min_margin) 410 < int W
                    \<and> max (stamp_size_max cfg + 2 * min_margin) 410 < int H
                 then s = max (stamp_size_max cfg + 2 * min_margin) 410
                 else int W \<le> s + 5 \<or> int H \<le> s + 5)"
  using white_primary_general[OF assms]
  unfolding max_zone_size_def by blast

text \<open>The page of 2100 by 2970 pixels with stamps between 200 and 300.\<close>

theorem white_page_primary_max_witness:
  "find_whitest_space_tier \<lparr>stamp_size_max = 300, stamp_size_min = 200\<rparr> 2970 2100
     (\<lambda>r c. 0) (\<lambda>r c. 255)
   = Inr (PRIMARY, \<lparr>p_x = 0, p_y = 0, p_size = 410, p_stamp_size = 300\<rparr>)"
  using white_page_primary_max[of "\<lparr>stamp_size_max = 300, stamp_size_min = 200\<rparr>"
      2100 2970 "\<lambda>r c. 255" "\<lambda>r c. 0"]
  by (simp add: min_margin_def)

text \<open>
  Claim C6 (black page), as amended. On a uniformly black page whose dimensions are at
  least \<open>stamp_size_min + 2 * min_margin + 20\<close>, with \<open>stamp_size_min \<le> stamp_size_max\<close> and
  whatever the detectors marked, every search tier fails and the forced placement is
  returned: zone \<open>stamp_size_min + 2 * min_margin\<close>, stamp \<open>stamp_size_min\<close>, \<open>y = 20\<close>
  and \<open>x = W - zone - 20\<close>, that is 20 pixels away from the right edge (\<open>W - 230\<close> for
  stamps between 200 and 300).
\<close>

theorem black_page_forced_corner:
  assumes "stamp_size_min cfg \<le> stamp_size_max cfg"
    and "stamp_size_min cfg + 2 * min_margin + 20 \<le> int W"
    and "stamp_size_min cfg + 2 * min_margin + 20 \<le> int H"
    and "\<forall>r<H. \<forall>c<W. img r c = 0"
  shows "find_whitest_space_tier cfg H W forbidden_mask img
         = Inr (T4, \<lparr>p_x = int W - (stamp_size_min cfg + 2 * min_margin) - 20, p_y = 20,
                     p_size = stamp_size_min cfg + 2 * min_margin,
                     p_stamp_size = stamp_size_min cfg\<rparr>)"
  using black_forced[OF assms(1,4), of forbidden_mask]
    forced_position_roomy[of cfg W H] assms(2,3)
  by (simp add: min_zone_size_def)

theorem black_page_forced_corner_witness:
  "find_whitest_space_tier \<lparr>stamp_size_max = 300, stamp_size_min = 200\<rparr> 1000 1000
     (\<lambda>r c. 255) (\<lambda>r c. 0)
   = Inr (T4, \<lparr>p_x = 770, p_y = 20, p_size = 210, p_stamp_size = 200\<rparr>)"
  using black_page_forced_corner[of "\<lparr>stamp_size_max = 300, stamp_size_min = 200\<rparr>"
      1000 1000 "\<lambda>r c. 0" "\<lambda>r c. 255"]
  by (simp add: min_margin_def)

text \<open>
  The placement \<open>{x: W - 210, y: 20, zone: 210, stamp: 200}\<close> of the specification is not
  what is returned on a black page of 1000 by 1000 pixels.
\<close>

theorem black_page_counterexample:
  "find_whitest_space \<lparr>stamp_size_max = 300, stamp_size_min = 200\<rparr> 1000 1000
     (\<lambda>r c. 255) (\<lambda>r c. 0)
   \<noteq> Inr \<lparr>p_x = 1000 - 210, p_y = 20, p_size = 210, p_stamp_size = 200\<rparr>"
proof -
  let ?cfg = "\<lparr>stamp_size_max = 300, stamp_size_min = 200\<rparr>"
  have "find_whitest_space_tier ?cfg 1000 1000 (\<lambda>r c. 255) (\<lambda>r c. 0)
        = Inr (T4, forced_position ?cfg 1000 1000)"
    by (rule black_forced) simp_all
  then show ?thesis
    by (simp add: find_whitest_space_def forced_position_def min_margin_def)
qed

text \<open>
  Claim C7 (early termination). Let the positions of the primary scan be listed in scan
  order: sizes from the largest to the smallest in steps of 5, then \<open>y\<close> ascending, then
  \<open>x\<close> ascending with the adaptive step. With \<open>0 < stamp_size_max\<close> and
  \<open>stamp_size_min \<le> stamp_size_max\<close>, the first position of that list that is clean and
  whose stamp \<open>min (s - 2 * min_margin) stamp_size_max\<close> equals \<open>stamp_size_max\<close> is the
  placement returned, whatever the positions and sizes after it hold.
\<close>

theorem first_maximal_candidate_wins:
  assumes "0 < stamp_size_max cfg" "stamp_size_min cfg \<le> stamp_size_max cfg"
    and "search_sizes_to_try cfg = Inr sizes"
    and "find (\<lambda>(s, y, x). clean cfg H W fm (white_binary_of img) s y x
                            \<and> available_stamp_size cfg s = stamp_size_max cfg)
           (scan_positions cfg H W sizes) = Some (s, y, x)"
  shows "find_whitest_space_tier cfg H W fm img
         = Inr (PRIMARY, \<lparr>p_x = x, p_y = y, p_size = s, p_stamp_size = stamp_size_max cfg\<rparr>)"
  using assms by (rule primary_first_maximal)

text \<open>A white page with one forbidden pixel in the top-left corner: the first position
  \<open>(0, 0)\<close> is not clean, the second one, \<open>x = 13\<close>, is returned.\<close>

theorem first_maximal_candidate_wins_witness:
  "find_whitest_space_tier \<lparr>stamp_size_max = 300, stamp_size_min = 200\<rparr> 2970 2100
     (\<lambda>r c. if r = 0 \<and> c = 0 then 255 else 0) (\<lambda>r c. 255)
   = Inr (PRIMARY, \<lparr>p_x = 13, p_y = 0, p_size = 410, p_stamp_size = 300\<rparr>)"
proof -
  let ?cfg = "\<lparr>stamp_size_max = 300, stamp_size_min = 200\<rparr>"
  let ?fm = "\<lambda>(r::nat) (c::nat). if r = 0 \<and> c = 0 then 255 else (0 :: 8 word)"
  let ?img = "\<lambda>(r::nat) (c::nat). (255 :: 8 word)"
  have mz: "max_zone_size ?cfg = 410" by (simp add: max_zone_size_def min_margin_def)
  have step: "scan_step ?cfg 410 = 13" by (simp add: scan_step_def is_large_def min_margin_def)
  obtain rest where sizes: "search_sizes_to_try ?cfg = Inr (410 # rest)"
    using search_sizes_shape[of ?cfg] mz by auto
  obtain cs where cs: "scan_positions ?cfg 2970 2100 (410 # rest) = (410, 0, 0) # (410, 0, 13) # cs"
    using scan_positions_head2[of 2100 410 2970 ?cfg rest] step by auto
  have "255 \<in> set (roi 2970 2100 ?fm 0 0 410)"
    by (subst roi_set_in_page) (auto simp: in_page_def)
  moreover have "(255 :: 8 word) \<noteq> 0" by simp
  ultimately have "np_sum (roi 2970 2100 ?fm 0 0 410) \<noteq> 0"
    using np_sum_zero_iff[of "roi 2970 2100 ?fm 0 0 410"] by blast
  then have c0: "\<not> clean ?cfg 2970 2100 ?fm (white_binary_of ?img) 410 0 0"
    by (simp add: clean_def)
  have "\<forall>p \<in> set (roi 2970 2100 ?fm 0 13 410). p = 0"
    by (subst roi_set_in_page) (auto simp: in_page_def)
  then have "np_sum (roi 2970 2100 ?fm 0 13 410) = 0"
    unfolding np_sum_zero_iff .
  then have c1: "clean ?cfg 2970 2100 ?fm (white_binary_of ?img) 410 0 13"
    by (subst clean_on_white) (simp_all add: in_page_def)
  have a: "available_stamp_size ?cfg 410 = 300"
    by (simp add: available_stamp_size_def min_margin_def)
  have "find (\<lambda>(s, y, x). clean ?cfg 2970 2100 ?fm (white_binary_of ?img) s y x
                           \<and> available_stamp_size ?cfg s = stamp_size_max ?cfg)
          (scan_positions ?cfg 2970 2100 (410 # rest)) = Some (410, 0, 13)"
    by (simp add: cs c0 c1 a)
  then show ?thesis
    using first_maximal_candidate_wins[of ?cfg "410 # rest" 2970 2100 ?fm ?img 410 0 13] sizes
    by simp
qed

text \<open>
  Claim C10 (the refinement stage is void). The refinement rescans at the size already
  found, where the stamp size \<open>min (size - 2 * min_margin) stamp_size_max\<close> is the one
  already recorded, so no refined position is ever strictly better: the engine returns
  what the engine without the refinement stage returns, for every page and
  configuration.
\<close>

theorem refinement_never_changes_result:
  "find_whitest_space cfg H W fm img = find_whitest_space_unrefined cfg H W fm img"
proof (cases "search_sizes_to_try cfg")
  case (Inl e)
  then show ?thesis
    by (simp add: find_whitest_space_def find_whitest_space_tier_def
        find_whitest_space_unrefined_def)
next
  case (Inr sizes)
  show ?thesis
  proof (cases "primary_scan cfg H W fm (white_binary_of img) sizes")
    case None
    then show ?thesis using Inr
      by (simp add: find_whitest_space_def find_whitest_space_tier_def
          find_whitest_space_unrefined_def)
  next
    case (Some bp)
    then have "refine cfg H W fm (white_binary_of img) bp = placement_of bp"
      by (intro refine_unchanged primary_scan_ok)
    then show ?thesis using Inr Some
      by (simp add: find_whitest_space_def find_whitest_space_tier_def
          find_whitest_space_unrefined_def)
  qed
qed

theorem refinement_never_changes_result_witness:
  "find_whitest_space \<lparr>stamp_size_max = 300, stamp_size_min = 200\<rparr> 2970 2100
     (\<lambda>r c. 0) (\<lambda>r c. 255)
   = find_whitest_space_unrefined \<lparr>stamp_size_max = 300, stamp_size_min = 200\<rparr> 2970 2100
       (\<lambda>r c. 0) (\<lambda>r c. 255)"
  using refinement_never_changes_result[of "\<lparr>stamp_size_max = 300, stamp_size_min = 200\<rparr>"
      2970 2100 "\<lambda>r c. 0" "\<lambda>r c. 255"]
  by simp

end
